theory Spec2Isabelle
  imports Main "HOL-Library.AList" "HOL-Library.Char_ord" "HOL-Library.List_Lexorder"
begin

section \<open>Common data: names, errors\<close>

text \<open>
  The module \<^verbatim>\<open>asyncio_xmpp/xml.py\<close> holds two classes: \<^verbatim>\<open>XMPPXMLGenerator\<close>
  (SAX events to bytes) and \<^verbatim>\<open>XMPPXMLProcessor\<close> (SAX events to a stanza driver).

  A name, a prefix, a URI and an attribute value are represented by their UTF-8 bytes
  (\<^typ>\<open>string\<close>), so that \<^verbatim>\<open>s.encode("utf-8")\<close> is the identity on them. Every test the
  source makes on their characters (\<^verbatim>\<open>":" in s\<close>, the replacement of \<^verbatim>\<open>&\<close>, \<^verbatim>\<open><\<close>,
  \<^verbatim>\<open>>\<close>) concerns ASCII code points only, and a UTF-8 byte below 128 is always such a
  code point. The text given to \<^verbatim>\<open>characters\<close> is kept as the list of its code points
  and encoded where the source encodes it, since that encoding can fail.
  An optional value (\<^verbatim>\<open>None\<close> or a string) is a \<^typ>\<open>string option\<close>.
\<close>

type_synonym uri = "string option"
type_synonym prefix = "string option"
type_synonym name = "uri \<times> string"

text \<open>
  The exceptions the two classes raise, one constructor per \<^verbatim>\<open>raise\<close> statement (the
  formatted part of a message is left out):
  \<^item> \<open>InvalidName\<close>: \<^verbatim>\<open>ValueError("invalid name: ...")\<close>
  \<^item> \<open>InvalidPrefix\<close>: \<^verbatim>\<open>ValueError("not a valid prefix: ...")\<close>
  \<^item> \<open>DuplicatePrefix\<close>: \<^verbatim>\<open>ValueError("prefix already declared for next element")\<close>
  \<^item> \<open>AmbiguousNamespace\<close>: \<^verbatim>\<open>ValueError("cannot create unnamespaced element when prefixless namespace is bound")\<close>
  \<^item> \<open>XmlnsAttribute\<close>: \<^verbatim>\<open>ValueError("xmlns not allowed as attribute name")\<close>
  \<^item> \<open>RestrictedCharacter\<close>: \<^verbatim>\<open>ValueError("control characters are not allowed in well-formed XML")\<close>
  \<^item> \<open>UnicodeEncodeError\<close>: raised by \<^verbatim>\<open>str.encode\<close> (a subclass of \<^verbatim>\<open>ValueError\<close>)
  \<^item> \<open>UnclosedPrefix\<close>: \<^verbatim>\<open>RuntimeError("namespace prefix has not been closed")\<close>
  \<^item> \<open>InvalidState\<close>: \<^verbatim>\<open>RuntimeError("invalid state: ...")\<close>
  \<^item> \<open>KeyError\<close>, \<open>IndexError\<close>, \<open>AttributeError\<close>: raised by the Python runtime
    (\<^verbatim>\<open>set.remove\<close> of a missing element, \<^verbatim>\<open>list.pop\<close> of an empty list, a method
    call on \<^verbatim>\<open>None\<close>)
  \<^item> \<open>StreamError c\<close>: \<^verbatim>\<open>errors.StreamError((namespaces.streams, c), text)\<close>
  \<^item> \<open>JIDError\<close>: whatever the external \<^verbatim>\<open>jid.JID.fromstr\<close> raises on a bad address
\<close>

datatype ProcessorState = CLEAN | STARTED | STREAM_HEADER_PROCESSED | STREAM_FOOTER_PROCESSED

datatype condition = restricted_xml | invalid_namespace | unsupported_version | undefined_condition

datatype error =
    InvalidName
  | InvalidPrefix
  | DuplicatePrefix
  | AmbiguousNamespace
  | XmlnsAttribute
  | RestrictedCharacter
  | UnicodeEncodeError
  | UnclosedPrefix
  | InvalidState ProcessorState
  | KeyError
  | IndexError
  | AttributeError
  | StreamError condition
  | JIDError

datatype exception_class = ValueError | RuntimeError | LookupError | PyAttributeError | PyStreamError

fun class_of :: "error \<Rightarrow> exception_class" where
  "class_of UnclosedPrefix = RuntimeError"
| "class_of (InvalidState _) = RuntimeError"
| "class_of KeyError = LookupError"
| "class_of IndexError = LookupError"
| "class_of AttributeError = PyAttributeError"
| "class_of (StreamError _) = PyStreamError"
| "class_of _ = ValueError"

section \<open>The stream processor\<close>

text \<open>
  The stanza driver (\<^verbatim>\<open>stanza_model.SAXDriver\<close>) is an external collaborator; the model
  keeps the list of the events forwarded to it, latest last, and \<open>None\<close> while the
  processor holds no driver. The attributes of an element are a dictionary from names to
  values, of which the processor only looks keys up.
\<close>

type_synonym attrs = "name \<rightharpoonup> string"

datatype driver_event =
    DStartElementNS name "string option" attrs
  | DCharacters string
  | DEndElementNS name "string option"

record 'j processor =
  state :: ProcessorState
  depth :: int
  driver :: "driver_event list option"
  remote_version :: "int list option"
  remote_to :: "'j option"
  remote_from :: "'j option"
  remote_id :: "string option"

text \<open>
  What the processor takes from outside this module: the namespace constant
  \<^verbatim>\<open>namespaces.xmlstream\<close>, Python's \<^verbatim>\<open>int(str)\<close> (\<open>None\<close> where it raises
  \<^verbatim>\<open>ValueError\<close>) and \<^verbatim>\<open>jid.JID.fromstr\<close> (\<open>None\<close> where it raises).
\<close>

record 'j externals =
  xmlstream :: string
  py_int :: "string \<Rightarrow> int option"
  JID_fromstr :: "string \<Rightarrow> 'j option"

definition PREDEFINED_ENTITIES :: "string set" where
  "PREDEFINED_ENTITIES = {''amp'', ''lt'', ''gt'', ''apos'', ''quot''}"

definition new_processor :: "'j processor" where
  "new_processor = \<lparr>state = CLEAN, depth = 0, driver = None, remote_version = None,
     remote_to = None, remote_from = None, remote_id = None\<rparr>"

text \<open>Every method returns the exception it raised, if any, and the processor as it left it.\<close>

definition comment :: "'j processor \<Rightarrow> string \<Rightarrow> error option \<times> 'j processor" where
  "comment p data = (Some (StreamError restricted_xml), p)"

definition startDTD ::
  "'j processor \<Rightarrow> string \<Rightarrow> string option \<Rightarrow> string option \<Rightarrow> error option \<times> 'j processor" where
  "startDTD p nm publicId systemId = (Some (StreamError restricted_xml), p)"

definition endDTD :: "'j processor \<Rightarrow> error option \<times> 'j processor" where
  "endDTD p = (None, p)"

definition startCDATA :: "'j processor \<Rightarrow> error option \<times> 'j processor" where
  "startCDATA p = (None, p)"

definition endCDATA :: "'j processor \<Rightarrow> error option \<times> 'j processor" where
  "endCDATA p = (None, p)"

definition startEntity :: "'j processor \<Rightarrow> string \<Rightarrow> error option \<times> 'j processor" where
  "startEntity p nm =
     (if nm \<notin> PREDEFINED_ENTITIES then (Some (StreamError restricted_xml), p) else (None, p))"

definition endEntity :: "'j processor \<Rightarrow> string \<Rightarrow> error option \<times> 'j processor" where
  "endEntity p nm = (None, p)"

definition processingInstruction ::
  "'j processor \<Rightarrow> string \<Rightarrow> string \<Rightarrow> error option \<times> 'j processor" where
  "processingInstruction p target foo = (Some (StreamError restricted_xml), p)"

definition proc_characters :: "'j processor \<Rightarrow> string \<Rightarrow> error option \<times> 'j processor" where
  "proc_characters p cs =
     (if state p \<noteq> STREAM_HEADER_PROCESSED then (Some (InvalidState (state p)), p)
      else case driver p of
             None \<Rightarrow> (Some AttributeError, p)
           | Some evs \<Rightarrow> (None, p\<lparr>driver := Some (evs @ [DCharacters cs])\<rparr>))"

definition proc_startDocument :: "'j processor \<Rightarrow> error option \<times> 'j processor" where
  "proc_startDocument p =
     (if state p \<noteq> CLEAN then (Some (InvalidState (state p)), p)
      else (None, p\<lparr>state := STARTED, depth := 0, driver := Some []\<rparr>))"

definition proc_endDocument :: "'j processor \<Rightarrow> error option \<times> 'j processor" where
  "proc_endDocument p =
     (if state p \<noteq> STREAM_FOOTER_PROCESSED then (Some (InvalidState (state p)), p)
      else (None, p\<lparr>state := CLEAN, driver := None\<rparr>))"

text \<open>\<^verbatim>\<open>s.split(sep)\<close> for a separator of one character.\<close>

fun split :: "char \<Rightarrow> string \<Rightarrow> string list" where
  "split sep [] = [[]]"
| "split sep (c # cs) =
     (if c = sep then [] # split sep cs
      else case split sep cs of [] \<Rightarrow> [[c]] | w # ws \<Rightarrow> (c # w) # ws)"

text \<open>\<^verbatim>\<open>tuple(map(int, pieces))\<close>: \<open>None\<close> as soon as one piece does not parse.\<close>

fun map_int :: "(string \<Rightarrow> int option) \<Rightarrow> string list \<Rightarrow> int list option" where
  "map_int f [] = Some []"
| "map_int f (w # ws) =
     (case f w of None \<Rightarrow> None
      | Some i \<Rightarrow> (case map_int f ws of None \<Rightarrow> None | Some is \<Rightarrow> Some (i # is)))"

definition proc_startElementNS ::
  "'j externals \<Rightarrow> 'j processor \<Rightarrow> name \<Rightarrow> string option \<Rightarrow> attrs \<Rightarrow> error option \<times> 'j processor" where
  "proc_startElementNS ext p nm qname attributes =
     (if state p = STREAM_HEADER_PROCESSED then
        (case driver p of
           None \<Rightarrow> (Some AttributeError, p)
         | Some evs \<Rightarrow>
             (None, p\<lparr>driver := Some (evs @ [DStartElementNS nm qname attributes]),
                      depth := depth p + 1\<rparr>))
      else if state p \<noteq> STARTED then (Some (InvalidState (state p)), p)
      else if nm \<noteq> (Some (xmlstream ext), ''stream'') then (Some (StreamError invalid_namespace), p)
      else
        (case map_int (py_int ext)
                (split CHR ''.''
                  (case attributes (None, ''version'') of None \<Rightarrow> ''0.9'' | Some v \<Rightarrow> v)) of
           None \<Rightarrow> (Some (StreamError unsupported_version), p)
         | Some ver \<Rightarrow>
             (let p1 = p\<lparr>remote_version := Some ver\<rparr> in
              if ver \<noteq> [1, 0] then (Some (StreamError unsupported_version), p1)
              else
                (case (case attributes (None, ''to'') of
                         None \<Rightarrow> Some None
                       | Some t \<Rightarrow> map_option Some (JID_fromstr ext t)) of
                   None \<Rightarrow> (Some JIDError, p1)
                 | Some rto \<Rightarrow>
                     (let p2 = p1\<lparr>remote_to := rto\<rparr> in
                      case attributes (None, ''from'') of
                        None \<Rightarrow> (Some (StreamError undefined_condition), p2)
                      | Some f \<Rightarrow>
                          (case JID_fromstr ext f of
                             None \<Rightarrow> (Some JIDError, p2)
                           | Some rfrom \<Rightarrow>
                               (let p3 = p2\<lparr>remote_from := Some rfrom\<rparr> in
                                case attributes (None, ''id'') of
                                  None \<Rightarrow> (Some (StreamError undefined_condition), p3)
                                | Some i \<Rightarrow>
                                    (None, p3\<lparr>remote_id := Some i,
                                               state := STREAM_HEADER_PROCESSED,
                                               depth := depth p3 + 1\<rparr>))))))))"

definition proc_endElementNS ::
  "'j processor \<Rightarrow> name \<Rightarrow> string option \<Rightarrow> error option \<times> 'j processor" where
  "proc_endElementNS p nm qname =
     (if state p = STREAM_HEADER_PROCESSED then
        (let p1 = p\<lparr>depth := depth p - 1\<rparr> in
         if depth p1 > 0 then
           (case driver p1 of
              None \<Rightarrow> (Some AttributeError, p1)
            | Some evs \<Rightarrow> (None, p1\<lparr>driver := Some (evs @ [DEndElementNS nm qname])\<rparr>))
         else (None, p1\<lparr>state := STREAM_FOOTER_PROCESSED\<rparr>))
      else (Some (InvalidState (state p)), p))"

section \<open>The XML generator\<close>

subsection \<open>Library functions the generator calls\<close>

text \<open>
  \<^verbatim>\<open>xmlValidateNameValue_buf\<close> refuses a buffer holding a zero byte and asks libxml2
  otherwise. libxml2's \<^verbatim>\<open>xmlValidateNameValue\<close> is not part of the repository: it is the
  parameter \<open>libxml2\<close> of every function that validates a name.
\<close>

definition xmlValidateNameValue_buf :: "(string \<Rightarrow> bool) \<Rightarrow> string \<Rightarrow> bool" where
  "xmlValidateNameValue_buf libxml2 b = (if CHR 0x00 \<in> set b then False else libxml2 b)"

definition xmlValidateNameValue_str :: "(string \<Rightarrow> bool) \<Rightarrow> string \<Rightarrow> bool" where
  "xmlValidateNameValue_str libxml2 s = xmlValidateNameValue_buf libxml2 s"

text \<open>
  Modelled from the spec: the external Name Validator ("reports whether it is a valid XML
  Name token"), for names made of ASCII characters only. It is the validator the concrete
  runs below are made with; the general theorems hold for every validator.
\<close>

definition name_start_char :: "char \<Rightarrow> bool" where
  "name_start_char c =
     (let n = (of_char c :: nat) in
      n = 58 \<or> n = 95 \<or> (65 \<le> n \<and> n \<le> 90) \<or> (97 \<le> n \<and> n \<le> 122))"

definition name_char :: "char \<Rightarrow> bool" where
  "name_char c =
     (let n = (of_char c :: nat) in
      name_start_char c \<or> n = 45 \<or> n = 46 \<or> (48 \<le> n \<and> n \<le> 57))"

fun ascii_name :: "string \<Rightarrow> bool" where
  "ascii_name [] = False"
| "ascii_name (c # cs) = (name_start_char c \<and> list_all name_char cs)"

text \<open>
  \<^verbatim>\<open>s.replace(c, r)\<close> for a single character \<open>c\<close>, on strings of bytes and on strings
  of code points alike.
\<close>

definition replace :: "'a \<Rightarrow> 'a list \<Rightarrow> 'a list \<Rightarrow> 'a list" where
  "replace c r s = concat (map (\<lambda>x. if x = c then r else [x]) s)"

text \<open>
  \<^verbatim>\<open>xml.sax.saxutils.escape\<close> and \<^verbatim>\<open>quoteattr\<close> of the standard library: the ampersand
  is replaced first, then \<^verbatim>\<open>>\<close>, then \<^verbatim>\<open><\<close>; \<^verbatim>\<open>quoteattr\<close> replaces newline, carriage
  return and tab as well and chooses the quotes.
\<close>

definition escape :: "string \<Rightarrow> string" where
  "escape data = replace CHR ''<'' ''&lt;'' (replace CHR ''>'' ''&gt;'' (replace CHR ''&'' ''&amp;'' data))"

definition quoteattr :: "string \<Rightarrow> string" where
  "quoteattr data =
     (let d = replace CHR 0x09 ''&#9;'' (replace CHR 0x0D ''&#13;'' (replace CHR 0x0A ''&#10;'' (escape data)))
      in if CHR 0x22 \<in> set d then
           (if CHR 0x27 \<in> set d then [CHR 0x22] @ replace CHR 0x22 ''&quot;'' d @ [CHR 0x22]
            else [CHR 0x27] @ d @ [CHR 0x27])
         else [CHR 0x22] @ d @ [CHR 0x22])"

text \<open>
  The same \<^verbatim>\<open>escape\<close> on a text of code points (\<^verbatim>\<open>&\<close> is 38, \<^verbatim>\<open>>\<close> is 62, \<^verbatim>\<open><\<close>
  is 60); \<open>code_points\<close> gives the code points of an ASCII literal.
\<close>

definition code_points :: "string \<Rightarrow> nat list" where
  "code_points w = map of_char w"

definition escape_text :: "nat list \<Rightarrow> nat list" where
  "escape_text data =
     replace 60 (code_points ''&lt;'') (replace 62 (code_points ''&gt;'')
       (replace 38 (code_points ''&amp;'') data))"

text \<open>
  \<^verbatim>\<open>text.encode("utf-8")\<close>: one to four bytes for each code point (a code point of a
  Python \<^verbatim>\<open>str\<close> is below \<open>0x110000\<close>), and \<^verbatim>\<open>UnicodeEncodeError\<close>, here \<open>None\<close>,
  when the text holds a surrogate, \<open>0xD800\<close> to \<open>0xDFFF\<close>.
\<close>

definition utf8_bytes :: "nat \<Rightarrow> string" where
  "utf8_bytes c =
     (if c < 0x80 then [char_of c]
      else if c < 0x800 then [char_of (0xC0 + c div 0x40), char_of (0x80 + c mod 0x40)]
      else if c < 0x10000 then
        [char_of (0xE0 + c div 0x1000), char_of (0x80 + c div 0x40 mod 0x40),
         char_of (0x80 + c mod 0x40)]
      else
        [char_of (0xF0 + c div 0x40000), char_of (0x80 + c div 0x1000 mod 0x40),
         char_of (0x80 + c div 0x40 mod 0x40), char_of (0x80 + c mod 0x40)])"

definition encode_utf8 :: "nat list \<Rightarrow> string option" where
  "encode_utf8 cs =
     (if list_ex (\<lambda>c. 0xD800 \<le> c \<and> c \<le> 0xDFFF) cs then None
      else Some (concat (map utf8_bytes cs)))"

text \<open>\<^verbatim>\<open>"{}".format(n)\<close> for an integer: its decimal digits, with a minus sign below zero.\<close>

definition digit :: "nat \<Rightarrow> char" where
  "digit d = char_of (48 + d)"

fun str_nat :: "nat \<Rightarrow> string" where
  "str_nat n = (if n < 10 then [digit n] else str_nat (n div 10) @ [digit (n mod 10)])"

declare str_nat.simps [simp del]

definition str_int :: "int \<Rightarrow> string" where
  "str_int i = (if i < 0 then CHR ''-'' # str_nat (nat (- i)) else str_nat (nat i))"

text \<open>Python's truth value of \<^verbatim>\<open>None\<close> or a string.\<close>

definition truthy :: "string option \<Rightarrow> bool" where
  "truthy x = (case x of None \<Rightarrow> False | Some v \<Rightarrow> v \<noteq> [])"

text \<open>\<^verbatim>\<open>d.update(e)\<close> on dictionaries kept as association lists in insertion order.\<close>

definition dict_update :: "('k \<times> 'v) list \<Rightarrow> ('k \<times> 'v) list \<Rightarrow> ('k \<times> 'v) list" where
  "dict_update d e = fold (\<lambda>(k, v). AList.update k v) e d"

subsection \<open>The generator's state\<close>

text \<open>
  The fields of \<^verbatim>\<open>XMPPXMLGenerator\<close>. \<open>out\<close> is everything written to the sink so far
  and \<open>flushes\<close> the number of calls of the sink's \<^verbatim>\<open>flush\<close>. \<open>ns_map_stack\<close> has its
  top first (Python appends and pops at the end). \<open>pending_start_element\<close> is \<open>None\<close>
  for Python's \<^verbatim>\<open>False\<close>. The encoding is UTF-8.
\<close>

record generator =
  out :: string
  flushes :: nat
  ns_map_stack :: "((uri \<times> prefix) list \<times> prefix set \<times> int) list"
  curr_ns_map :: "(uri \<times> prefix) list"
  short_empty_elements :: bool
  pending_start_element :: "name option"
  ns_prefixes_floating_in :: "(prefix \<times> uri) list"
  ns_prefixes_floating_out :: "prefix set"
  ns_auto_prefixes_floating_in :: "prefix set"
  ns_decls_floating_in :: "(uri \<times> prefix) list"
  ns_counter :: int

definition new_generator :: "bool \<Rightarrow> generator" where
  "new_generator short =
     \<lparr>out = [], flushes = 0, ns_map_stack = [([], {}, 0)], curr_ns_map = [],
      short_empty_elements = short, pending_start_element = None,
      ns_prefixes_floating_in = [], ns_prefixes_floating_out = {},
      ns_auto_prefixes_floating_in = {}, ns_decls_floating_in = [], ns_counter = - 1\<rparr>"

text \<open>\<^verbatim>\<open>self._write(b)\<close>, the sink's \<^verbatim>\<open>write\<close>.\<close>

definition sink_write :: "generator \<Rightarrow> string \<Rightarrow> generator" where
  "sink_write s b = s\<lparr>out := out s @ b\<rparr>"

subsection \<open>Decimal numerals are injective\<close>

lemma of_char_digit: "d < 10 \<Longrightarrow> of_char (digit d) = (48 + d :: nat)"
  by (simp add: digit_def)

lemma digit_inj: "a < 10 \<Longrightarrow> b < 10 \<Longrightarrow> digit a = digit b \<Longrightarrow> a = b"
  by (metis of_char_digit add_left_cancel)

lemma digit_not_minus: "d < 10 \<Longrightarrow> digit d \<noteq> CHR ''-''"
proof
  assume d: "d < 10" and e: "digit d = CHR ''-''"
  have "of_char (digit d) = (48 + d :: nat)" using d by (rule of_char_digit)
  with e show False by simp
qed

lemma str_nat_nonempty: "str_nat n \<noteq> []"
  by (subst str_nat.simps) simp

lemma str_nat_last: "last (str_nat n) = digit (n mod 10)"
  by (subst str_nat.simps) simp

lemma str_nat_butlast: "butlast (str_nat n) = (if n < 10 then [] else str_nat (n div 10))"
  by (subst str_nat.simps) simp


lemma str_nat_inj: "str_nat n = str_nat m \<Longrightarrow> n = m"
proof (induction n arbitrary: m rule: str_nat.induct)
  case (1 n)
  have "last (str_nat n) = last (str_nat m)" using "1.prems" by simp
  then have l: "digit (n mod 10) = digit (m mod 10)" by (simp only: str_nat_last)
  have lm: "n mod 10 = m mod 10" by (rule digit_inj [OF _ _ l]) simp_all
  have "butlast (str_nat n) = butlast (str_nat m)" using "1.prems" by simp
  then have b: "(if n < 10 then [] else str_nat (n div 10)) = (if m < 10 then [] else str_nat (m div 10))"
    by (simp only: str_nat_butlast)
  show ?case
  proof (cases "n < 10")
    case True
    then have "m < 10" using b str_nat_nonempty [of "m div 10"] by (simp split: if_splits)
    with True lm show ?thesis by simp
  next
    case False
    then have m: "\<not> m < 10" using b str_nat_nonempty [of "n div 10"] by (simp split: if_splits)
    with False b have "str_nat (n div 10) = str_nat (m div 10)" by simp
    with "1.IH" False have "n div 10 = m div 10" by simp
    with lm show ?thesis by (metis div_mult_mod_eq)
  qed
qed

lemma str_nat_hd: "hd (str_nat n) \<noteq> CHR ''-''"
proof (induction n rule: str_nat.induct)
  case (1 n)
  show ?case
  proof (cases "n < 10")
    case True
    then show ?thesis by (subst str_nat.simps) (simp add: digit_not_minus)
  next
    case False
    with 1 show ?thesis by (subst str_nat.simps) (simp add: str_nat_nonempty)
  qed
qed


lemma str_nat_not_minus: "str_nat a \<noteq> CHR ''-'' # w"
  using str_nat_hd [of a] by (cases "str_nat a") auto

lemma str_int_inj: "str_int i = str_int j \<Longrightarrow> i = j"
proof -
  assume e: "str_int i = str_int j"
  show "i = j"
  proof (cases "i < 0")
    case True
    note i = this
    show ?thesis
    proof (cases "j < 0")
      case True
      with i e have "str_nat (nat (- i)) = str_nat (nat (- j))" by (simp add: str_int_def)
      then have "nat (- i) = nat (- j)" by (rule str_nat_inj)
      with i True show ?thesis by simp
    next
      case False
      with i e have "str_nat (nat j) = CHR ''-'' # str_nat (nat (- i))" by (simp add: str_int_def)
      then show ?thesis by (simp add: str_nat_not_minus)
    qed
  next
    case False
    note i = this
    show ?thesis
    proof (cases "j < 0")
      case True
      with i e have "str_nat (nat i) = CHR ''-'' # str_nat (nat (- j))" by (simp add: str_int_def)
      then show ?thesis by (simp add: str_nat_not_minus)
    next
      case False
      with i e have "str_nat (nat i) = str_nat (nat j)" by (simp add: str_int_def)
      then have "nat i = nat j" by (rule str_nat_inj)
      with i False show ?thesis by simp
    qed
  qed
qed

subsection \<open>Prefix allocation and name resolution\<close>

text \<open>
  The loop of \<^verbatim>\<open>_roll_prefix\<close>: from \<open>n\<close> upwards, the first number whose prefix
  \<^verbatim>\<open>"ns{}".format(n)\<close> is not a key of \<^verbatim>\<open>_ns_prefixes_floating_in\<close>. It ends because
  the dictionary is finite and distinct numbers give distinct prefixes.
\<close>

function roll_from :: "(prefix \<times> uri) list \<Rightarrow> int \<Rightarrow> int" where
  "roll_from fin n =
     (if Some (''ns'' @ str_int n) \<in> fst ` set fin then roll_from fin (n + 1) else n)"
  by pat_completeness auto
termination
proof (relation "measure (\<lambda>(fin, n). card {k \<in> fst ` set fin. \<exists>m\<ge>n. k = Some (''ns'' @ str_int m)})")
  show "wf (measure (\<lambda>(fin, n). card {k \<in> fst ` set fin. \<exists>m\<ge>n. k = Some (''ns'' @ str_int m)}))"
    by simp
next
  fix fin :: "(prefix \<times> uri) list" and n :: int
  assume a: "Some (''ns'' @ str_int n) \<in> fst ` set fin"
  let ?A = "\<lambda>i. {k \<in> fst ` set fin. \<exists>m\<ge>i. k = Some (''ns'' @ str_int m)}"
  have "?A (n + 1) \<subseteq> ?A n"
  proof
    fix k
    assume "k \<in> ?A (n + 1)"
    then obtain m where k: "k \<in> fst ` set fin" "k = Some (''ns'' @ str_int m)" and m: "n + 1 \<le> m"
      by blast
    from m have "n \<le> m" by simp
    with k show "k \<in> ?A n" by blast
  qed
  moreover have "Some (''ns'' @ str_int n) \<in> ?A n" using a by auto
  moreover have "Some (''ns'' @ str_int n) \<notin> ?A (n + 1)" by (auto dest: str_int_inj)
  ultimately have "?A (n + 1) \<subset> ?A n" by blast
  moreover have "finite (?A n)" by simp
  ultimately have "card (?A (n + 1)) < card (?A n)" by (rule psubset_card_mono [rotated])
  then show "((fin, n + 1), (fin, n)) \<in> measure (\<lambda>(fin, n). card {k \<in> fst ` set fin. \<exists>m\<ge>n. k = Some (''ns'' @ str_int m)})"
    by simp
qed

declare roll_from.simps [simp del]

definition roll_prefix :: "generator \<Rightarrow> string \<times> generator" where
  "roll_prefix s =
     (let prefix_number = roll_from (ns_prefixes_floating_in s) (ns_counter s + 1)
      in (''ns'' @ str_int prefix_number, s\<lparr>ns_counter := prefix_number\<rparr>))"

definition startPrefixMapping ::
  "(string \<Rightarrow> bool) \<Rightarrow> generator \<Rightarrow> prefix \<Rightarrow> uri \<Rightarrow> bool \<Rightarrow> error option \<times> generator" where
  "startPrefixMapping libxml2 s prefix uri auto =
     (if (case prefix of
            None \<Rightarrow> False
          | Some p \<Rightarrow> p = ''xml'' \<or> p = ''xmlns'' \<or> \<not> xmlValidateNameValue_str libxml2 p \<or>
                      CHR '':'' \<in> set p)
      then (Some InvalidPrefix, s)
      else if prefix \<in> fst ` set (ns_prefixes_floating_in s) then (Some DuplicatePrefix, s)
      else
        (None,
         s\<lparr>ns_auto_prefixes_floating_in :=
             (if auto then insert prefix (ns_auto_prefixes_floating_in s)
              else ns_auto_prefixes_floating_in s),
           ns_prefixes_floating_in := AList.update prefix uri (ns_prefixes_floating_in s),
           ns_decls_floating_in := AList.update uri prefix (ns_decls_floating_in s)\<rparr>))"

definition XML_NAMESPACE :: string where
  "XML_NAMESPACE = ''http://www.w3.org/XML/1998/namespace''"

text \<open>
  \<^verbatim>\<open>_qname(name, attr)\<close> returns the qualified name or the exception, and the generator
  as the call left it: an undeclared namespace is declared on the way.
\<close>

definition qname ::
  "(string \<Rightarrow> bool) \<Rightarrow> generator \<Rightarrow> name \<Rightarrow> bool \<Rightarrow> (error + string) \<times> generator" where
  "qname libxml2 s nm attr =
     (if CHR '':'' \<in> set (snd nm) \<or> \<not> xmlValidateNameValue_str libxml2 (snd nm)
      then (Inl InvalidName, s)
      else if truthy (fst nm) then
        (if fst nm = Some XML_NAMESPACE then (Inr (''xml:'' @ snd nm), s)
         else
           (case (case map_of (curr_ns_map s) (fst nm) of
                    Some prefix \<Rightarrow> (Inr prefix, s)
                  | None \<Rightarrow>
                      (case map_of (ns_decls_floating_in s) (fst nm) of
                         Some prefix \<Rightarrow> (Inr prefix, s)
                       | None \<Rightarrow>
                           (case roll_prefix s of
                              (p, s1) \<Rightarrow>
                                (case startPrefixMapping libxml2 s1 (Some p) (fst nm) True of
                                   (Some e, s2) \<Rightarrow> (Inl e, s2)
                                 | (None, s2) \<Rightarrow> (Inr (Some p), s2))))) of
              (Inl e, s') \<Rightarrow> (Inl e, s')
            | (Inr prefix, s') \<Rightarrow>
                (if truthy prefix then (Inr (the prefix @ '':'' @ snd nm), s')
                 else (Inr (snd nm), s'))))
      else if \<not> attr \<and> (None \<in> fst ` set (curr_ns_map s) \<or>
                           None \<in> fst ` set (ns_prefixes_floating_in s))
      then (Inl AmbiguousNamespace, s)
      else (Inr (snd nm), s))"

definition finish_pending_start_element :: "generator \<Rightarrow> generator" where
  "finish_pending_start_element s =
     (if pending_start_element s = None then s
      else sink_write (s\<lparr>pending_start_element := None\<rparr>) ''>'')"

definition pin_floating_ns_decls ::
  "generator \<Rightarrow> int \<Rightarrow> (error + (prefix \<times> uri) list) \<times> generator" where
  "pin_floating_ns_decls s old_counter =
     (if ns_prefixes_floating_out s \<noteq> {} then (Inl UnclosedPrefix, s)
      else
        (Inr (ns_prefixes_floating_in s),
         s\<lparr>ns_map_stack :=
             (curr_ns_map s,
              fst ` set (ns_prefixes_floating_in s) - ns_auto_prefixes_floating_in s,
              old_counter) # ns_map_stack s,
           curr_ns_map := dict_update (curr_ns_map s) (ns_decls_floating_in s),
           ns_decls_floating_in := [],
           ns_prefixes_floating_in := []\<rparr>))"

subsection \<open>The content handler methods\<close>

text \<open>
  The list comprehension of \<^verbatim>\<open>startElementNS\<close> over \<^verbatim>\<open>attributes.items()\<close>: each
  attribute name is resolved in turn, and the first exception ends the comprehension.
  The caller's dictionary of attributes is its list of items, in their order.
\<close>

fun qname_attrs ::
  "(string \<Rightarrow> bool) \<Rightarrow> generator \<Rightarrow> (name \<times> string) list \<Rightarrow>
   (error + (string \<times> string) list) \<times> generator" where
  "qname_attrs libxml2 s [] = (Inr [], s)"
| "qname_attrs libxml2 s ((attrname, v) # rest) =
     (case qname libxml2 s attrname True of
        (Inl e, s1) \<Rightarrow> (Inl e, s1)
      | (Inr q, s1) \<Rightarrow>
          (case qname_attrs libxml2 s1 rest of
             (Inl e, s2) \<Rightarrow> (Inl e, s2)
           | (Inr qs, s2) \<Rightarrow> (Inr ((q, v) # qs), s2)))"

text \<open>
  The loop over \<^verbatim>\<open>sorted(pending_prefixes.items())\<close>, once the entry of \<^verbatim>\<open>None\<close> has
  been popped. \<^verbatim>\<open>quoteattr(None)\<close> raises \<^verbatim>\<open>AttributeError\<close>, after the bytes before it
  have been written.
\<close>

fun write_ns_decls :: "generator \<Rightarrow> (string \<times> uri) list \<Rightarrow> error option \<times> generator" where
  "write_ns_decls s [] = (None, s)"
| "write_ns_decls s ((prefix, uri) # rest) =
     (let s1 = sink_write s '' xmlns'';
          s2 = (if prefix \<noteq> [] then sink_write (sink_write s1 '':'') prefix else s1);
          s3 = sink_write s2 ''=''
      in case uri of
           None \<Rightarrow> (Some AttributeError, s3)
         | Some u \<Rightarrow> write_ns_decls (sink_write s3 (quoteattr u)) rest)"

fun write_attrib :: "generator \<Rightarrow> (string \<times> string) list \<Rightarrow> generator" where
  "write_attrib s [] = s"
| "write_attrib s ((attrname, v) # rest) =
     write_attrib
       (sink_write (sink_write (sink_write (sink_write s '' '') attrname) ''='') (quoteattr v))
       rest"

text \<open>The items of a dictionary whose key is a string, in the dictionary's order.\<close>

fun string_items :: "(prefix \<times> uri) list \<Rightarrow> (string \<times> uri) list" where
  "string_items [] = []"
| "string_items ((None, u) # rest) = string_items rest"
| "string_items ((Some p, u) # rest) = (p, u) # string_items rest"

definition startElementNS ::
  "(string \<Rightarrow> bool) \<Rightarrow> generator \<Rightarrow> name \<Rightarrow> (name \<times> string) list \<Rightarrow> error option \<times> generator" where
  "startElementNS libxml2 s nm attributes =
     (let s0 = finish_pending_start_element s;
          old_counter = ns_counter s0
      in case qname libxml2 s0 nm False of
           (Inl e, s1) \<Rightarrow> (Some e, s1)
         | (Inr qn, s1) \<Rightarrow>
             (case qname_attrs libxml2 s1 attributes of
                (Inl e, s2) \<Rightarrow> (Some e, s2)
              | (Inr attrib, s2) \<Rightarrow>
                  if ''xmlns'' \<in> fst ` set attrib then (Some XmlnsAttribute, s2)
                  else
                    (case pin_floating_ns_decls s2 old_counter of
                       (Inl e, s3) \<Rightarrow> (Some e, s3)
                     | (Inr pending_prefixes, s3) \<Rightarrow>
                         (let s4 = sink_write (sink_write s3 ''<'') qn
                          in case (case map_of pending_prefixes None of
                                     None \<Rightarrow> (None, s4)
                                   | Some uri \<Rightarrow>
                                       (let s5 = sink_write s4 '' xmlns=''
                                        in case uri of
                                             None \<Rightarrow> (Some AttributeError, s5)
                                           | Some u \<Rightarrow> (None, sink_write s5 (quoteattr u)))) of
                               (Some e, s6) \<Rightarrow> (Some e, s6)
                             | (None, s6) \<Rightarrow>
                                 (case write_ns_decls s6
                                         (sort_key fst (string_items pending_prefixes)) of
                                    (Some e, s7) \<Rightarrow> (Some e, s7)
                                  | (None, s7) \<Rightarrow>
                                      (let s8 = write_attrib s7 attrib
                                       in if short_empty_elements s8
                                          then (None, s8\<lparr>pending_start_element := Some nm\<rparr>)
                                          else (None, sink_write s8 ''>'')))))))"

definition endElementNS ::
  "(string \<Rightarrow> bool) \<Rightarrow> generator \<Rightarrow> name \<Rightarrow> error option \<times> generator" where
  "endElementNS libxml2 s nm =
     (if ns_prefixes_floating_out s \<noteq> {} then (Some UnclosedPrefix, s)
      else
        (case (if pending_start_element s = Some nm
               then (None, sink_write (s\<lparr>pending_start_element := None\<rparr>) ''/>'')
               else
                 (let s1 = sink_write s ''</''
                  in case qname libxml2 s1 nm False of
                       (Inl e, s2) \<Rightarrow> (Some e, s2)
                     | (Inr q, s2) \<Rightarrow> (None, sink_write (sink_write s2 q) ''>''))) of
           (Some e, s3) \<Rightarrow> (Some e, s3)
         | (None, s3) \<Rightarrow>
             (case ns_map_stack s3 of
                [] \<Rightarrow> (Some IndexError, s3)
              | (m, floating_out, counter) # rest \<Rightarrow>
                  (None,
                   s3\<lparr>curr_ns_map := m, ns_prefixes_floating_out := floating_out,
                      ns_counter := counter, ns_map_stack := rest\<rparr>))))"

text \<open>
  \<^verbatim>\<open>endPrefixMapping\<close> removes the prefix from the set of prefixes to close
  (\<^verbatim>\<open>set.remove\<close> raises \<^verbatim>\<open>KeyError\<close> on a missing element; before the first
  \<^verbatim>\<open>endElementNS\<close> the field is an empty dictionary, on which Python raises
  \<^verbatim>\<open>AttributeError\<close> instead: the model gives \<open>KeyError\<close> for both).
\<close>

definition endPrefixMapping :: "generator \<Rightarrow> prefix \<Rightarrow> error option \<times> generator" where
  "endPrefixMapping s prefix =
     (if prefix \<in> ns_prefixes_floating_out s
      then (None, s\<lparr>ns_prefixes_floating_out := ns_prefixes_floating_out s - {prefix}\<rparr>)
      else (Some KeyError, s))"

text \<open>
  \<^verbatim>\<open>characters(chars)\<close>: \<open>chars\<close> is the list of the code points of the text, so that
  \<^verbatim>\<open>ord(c)\<close> is \<open>c\<close>. The text is escaped, then encoded, then written; when the encoding
  raises, nothing of the text has been written.
\<close>

definition characters :: "generator \<Rightarrow> nat list \<Rightarrow> error option \<times> generator" where
  "characters s chars =
     (let s1 = finish_pending_start_element s
      in if list_ex (\<lambda>c. (0 \<le> c \<and> c \<le> 8) \<or> (11 \<le> c \<and> c \<le> 12) \<or> (14 \<le> c \<and> c \<le> 31)) chars
         then (Some RestrictedCharacter, s1)
         else (case encode_utf8 (escape_text chars) of
                 None \<Rightarrow> (Some UnicodeEncodeError, s1)
               | Some b \<Rightarrow> (None, sink_write s1 b)))"

definition flush :: "generator \<Rightarrow> generator" where
  "flush s = (finish_pending_start_element s)\<lparr>flushes := flushes (finish_pending_start_element s) + 1\<rparr>"

text \<open>
  The words of the specification and of the docstring of \<^verbatim>\<open>characters\<close> for the
  characters it refuses: the ASCII control characters are the codes 0 to 31 and 127.
\<close>

definition ascii_control :: "nat \<Rightarrow> bool" where
  "ascii_control c = (c \<le> 31 \<or> c = 127)"



subsection \<open>Instances of the external functions, for concrete runs\<close>

text \<open>
  Modelled from the spec: Python's \<^verbatim>\<open>int(str)\<close>, on strings of ASCII digits only (the
  header's version is "a dot-separated integer tuple"); every other string is refused.
  The theorems about the stream header hold for every integer parser.
\<close>

definition ascii_int :: "string \<Rightarrow> int option" where
  "ascii_int w =
     (if w \<noteq> [] \<and> list_all (\<lambda>c. 48 \<le> (of_char c :: nat) \<and> (of_char c :: nat) \<le> 57) w
      then Some (foldl (\<lambda>a c. 10 * a + (int (of_char c) - 48)) 0 w) else None)"

text \<open>
  Modelled from the spec: the namespace constant of the envelope element and address
  parsing are external collaborators; here the usual stream namespace and a parser that
  accepts every address, which is kept as the string it was.
\<close>

definition example_externals :: "string externals" where
  "example_externals =
     \<lparr>xmlstream = ''http://etherx.jabber.org/streams'', py_int = ascii_int, JID_fromstr = Some\<rparr>"

subsection \<open>What resolving a name may change\<close>

text \<open>
  \<open>declares_more s s'\<close>: \<open>s'\<close> is \<open>s\<close> after automatic declarations. Nothing was
  written, the scope stack and the active map are the same, the counter did not go down,
  every pending prefix is still pending, a prefix that was pending before is automatic
  only if it was so before, and the absent URI is a pending key only if it was one.
\<close>

definition declares_more :: "generator \<Rightarrow> generator \<Rightarrow> bool" where
  "declares_more s s' =
     (out s' = out s \<and> flushes s' = flushes s \<and> ns_map_stack s' = ns_map_stack s \<and>
      curr_ns_map s' = curr_ns_map s \<and> short_empty_elements s' = short_empty_elements s \<and>
      pending_start_element s' = pending_start_element s \<and>
      ns_prefixes_floating_out s' = ns_prefixes_floating_out s \<and>
      ns_counter s \<le> ns_counter s' \<and>
      fst ` set (ns_prefixes_floating_in s) \<subseteq> fst ` set (ns_prefixes_floating_in s') \<and>
      ns_auto_prefixes_floating_in s' \<inter> fst ` set (ns_prefixes_floating_in s)
        \<subseteq> ns_auto_prefixes_floating_in s \<and>
      (None \<in> fst ` set (ns_decls_floating_in s')) = (None \<in> fst ` set (ns_decls_floating_in s)))"

text \<open>\<open>appends a b\<close>: \<open>b\<close> is \<open>a\<close> after some writes to the sink.\<close>

definition appends :: "generator \<Rightarrow> generator \<Rightarrow> bool" where
  "appends a b = (\<exists>w. b = a\<lparr>out := out a @ w\<rparr>)"

text \<open>
  The statements of \<^verbatim>\<open>startElementNS\<close> after \<^verbatim>\<open>_pin_floating_ns_decls\<close>, which write
  the start tag; \<open>startElementNS_alt\<close> shows that this is how \<open>startElementNS\<close> ends.
\<close>

definition write_start_tag ::
  "generator \<Rightarrow> string \<Rightarrow> (prefix \<times> uri) list \<Rightarrow> (string \<times> string) list \<Rightarrow> name \<Rightarrow>
   error option \<times> generator" where
  "write_start_tag s3 qn pending_prefixes attrib nm =
     (let s4 = sink_write (sink_write s3 ''<'') qn
      in case (case map_of pending_prefixes None of
                 None \<Rightarrow> (None, s4)
               | Some uri \<Rightarrow>
                   (let s5 = sink_write s4 '' xmlns=''
                    in case uri of
                         None \<Rightarrow> (Some AttributeError, s5)
                       | Some u \<Rightarrow> (None, sink_write s5 (quoteattr u)))) of
           (Some e, s6) \<Rightarrow> (Some e, s6)
         | (None, s6) \<Rightarrow>
             (case write_ns_decls s6 (sort_key fst (string_items pending_prefixes)) of
                (Some e, s7) \<Rightarrow> (Some e, s7)
              | (None, s7) \<Rightarrow>
                  (let s8 = write_attrib s7 attrib
                   in if short_empty_elements s8
                      then (None, s8\<lparr>pending_start_element := Some nm\<rparr>)
                      else (None, sink_write s8 ''>''))))"

section \<open>Properties of the stream processor\<close>

text \<open>
  C8. In every state of the processor (reachable or not), the callbacks \<^verbatim>\<open>comment\<close>,
  \<^verbatim>\<open>startDTD\<close>, \<^verbatim>\<open>startEntity\<close> of an entity that is not predefined, and
  \<^verbatim>\<open>processingInstruction\<close> raise the stream error \<^verbatim>\<open>restricted-xml\<close> and leave the
  processor as it was: nothing is added to the events forwarded to the stanza driver.
\<close>

theorem restricted_constructs_rejected:
  "comment p d = (Some (StreamError restricted_xml), p) \<and>
   startDTD p n pub sys = (Some (StreamError restricted_xml), p) \<and>
   (e \<notin> PREDEFINED_ENTITIES \<longrightarrow> startEntity p e = (Some (StreamError restricted_xml), p)) \<and>
   processingInstruction p t f = (Some (StreamError restricted_xml), p)"
  by (simp add: comment_def startDTD_def startEntity_def processingInstruction_def)

theorem restricted_constructs_rejected_witness:
  "''nbsp'' \<notin> PREDEFINED_ENTITIES \<and>
   startEntity (snd (proc_startDocument (new_processor :: string processor))) ''nbsp'' =
     (Some (StreamError restricted_xml), snd (proc_startDocument new_processor)) \<and>
   comment (snd (proc_startDocument (new_processor :: string processor))) ''x'' =
     (Some (StreamError restricted_xml), snd (proc_startDocument new_processor))"
proof -
  have h: "''nbsp'' \<notin> PREDEFINED_ENTITIES" by (simp add: PREDEFINED_ENTITIES_def)
  from restricted_constructs_rejected
    [of "snd (proc_startDocument (new_processor :: string processor))" "''x''" "''n''" None None "''nbsp''" "''t''" "''f''"] h
  show ?thesis by simp
qed

text \<open>
  C10. \<^verbatim>\<open>startCDATA\<close>, \<^verbatim>\<open>endCDATA\<close> and \<^verbatim>\<open>endDTD\<close> do nothing in every state: they
  raise nothing and return the processor unchanged (state, depth, header fields and the
  events forwarded to the driver).
\<close>

theorem lexical_noops:
  "startCDATA p = (None, p) \<and> endCDATA p = (None, p) \<and> endDTD p = (None, p)"
  by (simp add: startCDATA_def endCDATA_def endDTD_def)

text \<open>
  C2. In state \<open>STARTED\<close>, \<^verbatim>\<open>startElementNS\<close> for the envelope element with a
  \<^verbatim>\<open>version\<close> attribute that parses to a tuple other than \<open>(1, 0)\<close> raises the stream
  error \<^verbatim>\<open>unsupported-version\<close>; the processor stays in \<open>STARTED\<close>, and the only field
  that changed is \<open>remote_version\<close>, which holds the parsed tuple.
\<close>

theorem unsupported_version_keeps_state:
  assumes "state p = STARTED"
    and "attributes (None, ''version'') = Some v"
    and "map_int (py_int ext) (split CHR ''.'' v) = Some ver"
    and "ver \<noteq> [1, 0]"
  shows "proc_startElementNS ext p (Some (xmlstream ext), ''stream'') qn attributes =
           (Some (StreamError unsupported_version), p\<lparr>remote_version := Some ver\<rparr>) \<and>
         state (snd (proc_startElementNS ext p (Some (xmlstream ext), ''stream'') qn attributes)) = STARTED"
  using assms by (simp add: proc_startElementNS_def)

theorem unsupported_version_keeps_state_witness:
  "fst (proc_startElementNS example_externals (snd (proc_startDocument new_processor))
          (Some ''http://etherx.jabber.org/streams'', ''stream'') None
          [(None, ''version'') \<mapsto> ''2.0'', (None, ''from'') \<mapsto> ''a@b'', (None, ''id'') \<mapsto> ''s1''])
     = Some (StreamError unsupported_version) \<and>
   state (snd (proc_startElementNS example_externals (snd (proc_startDocument new_processor))
          (Some ''http://etherx.jabber.org/streams'', ''stream'') None
          [(None, ''version'') \<mapsto> ''2.0'', (None, ''from'') \<mapsto> ''a@b'', (None, ''id'') \<mapsto> ''s1''])) = STARTED"
proof -
  have a: "state (snd (proc_startDocument (new_processor :: string processor))) = STARTED"
    by (simp add: proc_startDocument_def new_processor_def)
  have b: "[(None, ''version'') \<mapsto> ''2.0'', (None, ''from'') \<mapsto> ''a@b'', (None, ''id'') \<mapsto> ''s1'']
             (None, ''version'') = Some ''2.0''"
    by simp
  have "map_int ascii_int (split CHR ''.'' ''2.0'') = Some [2, 0]"
    by code_simp
  moreover have "py_int example_externals = ascii_int" by (simp add: example_externals_def)
  ultimately have c: "map_int (py_int example_externals) (split CHR ''.'' ''2.0'') = Some [2, 0]"
    by (simp only:)
  have d: "[2, 0] \<noteq> [1, 0 :: int]" by simp
  have x: "xmlstream example_externals = ''http://etherx.jabber.org/streams''"
    by (simp add: example_externals_def)
  from unsupported_version_keeps_state
    [where p = "snd (proc_startDocument (new_processor :: string processor))"
       and attributes = "[(None, ''version'') \<mapsto> ''2.0'', (None, ''from'') \<mapsto> ''a@b'', (None, ''id'') \<mapsto> ''s1'']"
       and ext = example_externals and v = "''2.0''" and ver = "[2, 0]" and qn = None,
     OF a b c d]
  show ?thesis by (simp add: x a)
qed

section \<open>Properties of the generator\<close>

subsection \<open>Helper lemmas\<close>

lemma declares_more_refl: "declares_more s s"
  by (simp add: declares_more_def)

lemma declares_more_trans:
  assumes "declares_more a b" and "declares_more b c"
  shows "declares_more a c"
proof -
  have k: "fst ` set (ns_prefixes_floating_in a) \<subseteq> fst ` set (ns_prefixes_floating_in b)"
    and kb: "fst ` set (ns_prefixes_floating_in b) \<subseteq> fst ` set (ns_prefixes_floating_in c)"
    and ab: "ns_auto_prefixes_floating_in b \<inter> fst ` set (ns_prefixes_floating_in a)
               \<subseteq> ns_auto_prefixes_floating_in a"
    and bc: "ns_auto_prefixes_floating_in c \<inter> fst ` set (ns_prefixes_floating_in b)
               \<subseteq> ns_auto_prefixes_floating_in b"
    using assms by (simp_all add: declares_more_def)
  from k kb have "fst ` set (ns_prefixes_floating_in a) \<subseteq> fst ` set (ns_prefixes_floating_in c)"
    by (rule subset_trans)
  moreover from k ab bc have "ns_auto_prefixes_floating_in c \<inter> fst ` set (ns_prefixes_floating_in a)
               \<subseteq> ns_auto_prefixes_floating_in a"
    by blast
  ultimately show ?thesis using assms by (simp add: declares_more_def)
qed

lemma roll_from_ge: "n \<le> roll_from fin n"
proof (induction fin n rule: roll_from.induct)
  case (1 fin n)
  show ?case
  proof (cases "Some (''ns'' @ str_int n) \<in> fst ` set fin")
    case True
    with 1 have "n + 1 \<le> roll_from fin (n + 1)" by simp
    moreover from True have "roll_from fin n = roll_from fin (n + 1)"
      by (subst roll_from.simps) simp
    ultimately show ?thesis by simp
  next
    case False
    then have "roll_from fin n = n" by (subst roll_from.simps) simp
    then show ?thesis by simp
  qed
qed

lemma roll_from_fresh: "Some (''ns'' @ str_int (roll_from fin n)) \<notin> fst ` set fin"
proof (induction fin n rule: roll_from.induct)
  case (1 fin n)
  show ?case
  proof (cases "Some (''ns'' @ str_int n) \<in> fst ` set fin")
    case True
    then have "roll_from fin n = roll_from fin (n + 1)"
      by (subst roll_from.simps) simp
    with 1 True show ?thesis by simp
  next
    case False
    then have "roll_from fin n = n" by (subst roll_from.simps) simp
    with False show ?thesis by simp
  qed
qed

lemma roll_prefix_fields:
  "snd (roll_prefix s) = s\<lparr>ns_counter := ns_counter (snd (roll_prefix s))\<rparr>"
  "ns_counter s < ns_counter (snd (roll_prefix s))"
  "fst (roll_prefix s) = ''ns'' @ str_int (ns_counter (snd (roll_prefix s)))"
  "Some (fst (roll_prefix s)) \<notin> fst ` set (ns_prefixes_floating_in s)"
  using roll_from_ge [of "ns_counter s + 1" "ns_prefixes_floating_in s"]
    roll_from_fresh [of "ns_prefixes_floating_in s" "ns_counter s + 1"]
  by (simp_all add: roll_prefix_def Let_def)

lemma startPrefixMapping_declares_more:
  "uri \<noteq> None \<Longrightarrow> (auto \<Longrightarrow> prefix \<notin> fst ` set (ns_prefixes_floating_in s)) \<Longrightarrow>
   declares_more s (snd (startPrefixMapping V s prefix uri auto))"
  by (auto simp: startPrefixMapping_def declares_more_def AList.dom_update)

lemma roll_declares_more: "declares_more s (snd (roll_prefix s))"
  using roll_prefix_fields(2) [of s]
  by (subst roll_prefix_fields(1)) (simp add: declares_more_def)

lemma qname_declares_more: "declares_more s (snd (qname V s nm attr))"
proof -
  have auto_case: "declares_more s (snd (startPrefixMapping V (snd (roll_prefix s)) (Some (fst (roll_prefix s))) (fst nm) True))"
    if "truthy (fst nm)"
  proof -
    from that have u: "fst nm \<noteq> None" by (auto simp: truthy_def split: option.splits)
    have k: "ns_prefixes_floating_in (snd (roll_prefix s)) = ns_prefixes_floating_in s"
      by (subst roll_prefix_fields(1)) simp
    have "declares_more (snd (roll_prefix s))
            (snd (startPrefixMapping V (snd (roll_prefix s)) (Some (fst (roll_prefix s))) (fst nm) True))"
      using u roll_prefix_fields(4) [of s] by (intro startPrefixMapping_declares_more) (simp_all add: k)
    with roll_declares_more show ?thesis by (rule declares_more_trans)
  qed
  show ?thesis
    using auto_case
    by (auto simp: qname_def declares_more_refl split: option.splits prod.splits sum.splits)
qed

lemma startPrefixMapping_None:
  "(fst (startPrefixMapping V s prefix uri auto) = None) =
     (\<not> (case prefix of
            None \<Rightarrow> False
          | Some p \<Rightarrow> p = ''xml'' \<or> p = ''xmlns'' \<or> \<not> xmlValidateNameValue_str V p \<or>
                      CHR '':'' \<in> set p) \<and>
      prefix \<notin> fst ` set (ns_prefixes_floating_in s))"
  by (simp add: startPrefixMapping_def)

lemma startPrefixMapping_keys:
  "fst (startPrefixMapping V s prefix uri auto) = None \<Longrightarrow>
   fst ` set (ns_prefixes_floating_in (snd (startPrefixMapping V s prefix uri auto))) =
     insert prefix (fst ` set (ns_prefixes_floating_in s))"
  by (simp add: startPrefixMapping_def AList.dom_update split: if_splits)

lemma startPrefixMapping_distinct:
  "distinct (map fst (ns_prefixes_floating_in s)) \<Longrightarrow>
   distinct (map fst (ns_prefixes_floating_in (snd (startPrefixMapping V s prefix uri auto))))"
  by (simp add: startPrefixMapping_def AList.distinct_update)

subsection \<open>Character data\<close>

lemma escape_text_charwise:
  "escape_text data =
     concat (map (\<lambda>c. if c = 38 then code_points ''&amp;'' else if c = 62 then code_points ''&gt;''
                         else if c = 60 then code_points ''&lt;'' else [c]) data)"
  by (induction data) (simp_all add: escape_text_def replace_def code_points_def)

lemma escape_text_surrogates:
  "list_ex (\<lambda>c. 0xD800 \<le> c \<and> c \<le> 0xDFFF) (escape_text data) =
   list_ex (\<lambda>c. 0xD800 \<le> c \<and> c \<le> 0xDFFF) data"
  by (induction data) (simp_all add: escape_text_charwise code_points_def)

lemma refused_code_iff:
  "((0 \<le> c \<and> c \<le> 8) \<or> (11 \<le> c \<and> c \<le> 12) \<or> (14 \<le> c \<and> c \<le> 31)) =
   (c \<le> 31 \<and> c \<notin> {9, 10, 13 :: nat})"
  by (simp only: insert_iff empty_iff) arith

lemma char_of_examples:
  "char_of (127 :: nat) = CHR 0x7F"
  "map char_of [38, 108, 116, 59 :: nat] = ''&lt;''"
  "map char_of [195, 169 :: nat] = [CHR 0xC3, CHR 0xA9]"
  by code_simp+

text \<open>
  C6, at a failing input. The text is the single character DEL, code 127: an ASCII control
  character other than tab, newline and carriage return. \<^verbatim>\<open>characters\<close> raises nothing
  and writes it, where the docstring of \<^verbatim>\<open>characters\<close> promises a \<^verbatim>\<open>ValueError\<close> for
  any ASCII control character; the guard stops at code 31.
\<close>

theorem characters_writes_DEL:
  "ascii_control 127 \<and> 127 \<notin> {9, 10, 13 :: nat} \<and>
   characters (new_generator True) [127] = (None, sink_write (new_generator True) [CHR 0x7F])"
  using char_of_examples(1)
  by (simp add: ascii_control_def characters_def finish_pending_start_element_def new_generator_def
      escape_text_def replace_def encode_utf8_def utf8_bytes_def)

text \<open>
  X4. What \<^verbatim>\<open>characters\<close> does on every text, once a pending start tag is closed: the
  \<^verbatim>\<open>ValueError\<close> for control characters when the text holds a code of 0 to 31 other
  than 9, 10 and 13; else \<^verbatim>\<open>UnicodeEncodeError\<close> when it holds a surrogate; else it
  writes the UTF-8 bytes of the text with \<^verbatim>\<open>&\<close>, \<^verbatim>\<open>>\<close> and \<^verbatim>\<open><\<close> replaced by their
  entities. An error leaves nothing of the text written.
\<close>

theorem characters_result:
  "characters s chars =
     (if \<exists>c\<in>set chars. c \<le> 31 \<and> c \<notin> {9, 10, 13}
      then (Some RestrictedCharacter, finish_pending_start_element s)
      else if \<exists>c\<in>set chars. 0xD800 \<le> c \<and> c \<le> 0xDFFF
      then (Some UnicodeEncodeError, finish_pending_start_element s)
      else (None,
            sink_write (finish_pending_start_element s)
              (concat (map utf8_bytes
                 (concat (map (\<lambda>c. if c = 38 then code_points ''&amp;''
                                     else if c = 62 then code_points ''&gt;''
                                     else if c = 60 then code_points ''&lt;'' else [c]) chars))))))"
proof -
  have g: "list_ex (\<lambda>c. (0 \<le> c \<and> c \<le> 8) \<or> (11 \<le> c \<and> c \<le> 12) \<or> (14 \<le> c \<and> c \<le> 31)) chars =
           (\<exists>c\<in>set chars. c \<le> 31 \<and> c \<notin> {9, 10, 13})"
    by (simp only: list_ex_iff refused_code_iff)
  have e: "encode_utf8 (escape_text chars) =
           (if \<exists>c\<in>set chars. 0xD800 \<le> c \<and> c \<le> 0xDFFF then None
            else Some (concat (map utf8_bytes (escape_text chars))))"
    unfolding encode_utf8_def escape_text_surrogates by (simp only: list_ex_iff)
  show ?thesis
    unfolding characters_def Let_def g e
    by (simp add: escape_text_charwise [symmetric])
qed

theorem characters_result_witness:
  "characters (new_generator True) [60] = (None, sink_write (new_generator True) ''&lt;'') \<and>
   characters (new_generator True) [97, 1] = (Some RestrictedCharacter, new_generator True) \<and>
   characters (new_generator True) [0xD800] = (Some UnicodeEncodeError, new_generator True) \<and>
   characters (new_generator True) [0xE9] =
     (None, sink_write (new_generator True) [CHR 0xC3, CHR 0xA9])"
proof -
  have f: "finish_pending_start_element (new_generator True) = new_generator True"
    by (simp add: finish_pending_start_element_def new_generator_def)
  have a: "characters (new_generator True) [60] = (None, sink_write (new_generator True) ''&lt;'')"
    unfolding characters_result f
    using char_of_examples(2) by (simp add: code_points_def utf8_bytes_def)
  have b: "characters (new_generator True) [97, 1] = (Some RestrictedCharacter, new_generator True)"
    unfolding characters_result f by simp
  have c: "characters (new_generator True) [0xD800] = (Some UnicodeEncodeError, new_generator True)"
    unfolding characters_result f by simp
  have d: "characters (new_generator True) [0xE9] =
     (None, sink_write (new_generator True) [CHR 0xC3, CHR 0xA9])"
    unfolding characters_result f
    using char_of_examples(3) by (simp add: utf8_bytes_def)
  from a b c d show ?thesis by (simp only: simp_thms)
qed

subsection \<open>The structure of \<^verbatim>\<open>startElementNS\<close>\<close>

lemma appends_refl: "appends a a"
  unfolding appends_def by (rule exI [of _ "[]"]) simp

lemma appends_trans: "appends a b \<Longrightarrow> appends b c \<Longrightarrow> appends a c"
  unfolding appends_def
proof -
  assume "\<exists>w. b = a\<lparr>out := out a @ w\<rparr>" and "\<exists>w. c = b\<lparr>out := out b @ w\<rparr>"
  then obtain w1 w2 where b: "b = a\<lparr>out := out a @ w1\<rparr>" and c: "c = b\<lparr>out := out b @ w2\<rparr>"
    by blast
  have "c = a\<lparr>out := out a @ (w1 @ w2)\<rparr>" unfolding c b by simp
  then show "\<exists>w. c = a\<lparr>out := out a @ w\<rparr>" ..
qed

lemma appends_sink_write: "appends a (sink_write a w)"
  unfolding appends_def sink_write_def by blast

lemma appends_sink_write': "appends a b \<Longrightarrow> appends a (sink_write b w)"
  by (erule appends_trans) (rule appends_sink_write)

lemma write_ns_decls_appends: "appends s (snd (write_ns_decls s l))"
proof (induction l arbitrary: s)
  case Nil
  show ?case by (simp add: appends_refl)
next
  case (Cons a l)
  obtain p u where a: "a = (p, u)" by (cases a)
  let ?s3 = "sink_write (if p \<noteq> [] then sink_write (sink_write (sink_write s '' xmlns'') '':'') p
             else sink_write s '' xmlns'') ''=''"
  have s3: "appends s ?s3"
    by (simp add: appends_sink_write' appends_sink_write)
  show ?case
  proof (cases u)
    case None
    then have "snd (write_ns_decls s (a # l)) = ?s3" unfolding a by (simp add: Let_def)
    with s3 show ?thesis by simp
  next
    case (Some v)
    then have e: "write_ns_decls s (a # l) = write_ns_decls (sink_write ?s3 (quoteattr v)) l"
      unfolding a by (simp add: Let_def)
    from s3 have "appends s (sink_write ?s3 (quoteattr v))" by (rule appends_sink_write')
    moreover have "appends (sink_write ?s3 (quoteattr v)) (snd (write_ns_decls (sink_write ?s3 (quoteattr v)) l))"
      by (rule Cons.IH)
    ultimately show ?thesis unfolding e by (rule appends_trans)
  qed
qed

lemma write_ns_decls_error:
  "fst (write_ns_decls s l) = None \<or> fst (write_ns_decls s l) = Some AttributeError"
proof (induction l arbitrary: s)
  case Nil
  show ?case by simp
next
  case (Cons a l)
  obtain p u where a: "a = (p, u)" by (cases a)
  let ?s3 = "sink_write (if p \<noteq> [] then sink_write (sink_write (sink_write s '' xmlns'') '':'') p
             else sink_write s '' xmlns'') ''=''"
  show ?case
  proof (cases u)
    case None
    then show ?thesis unfolding a by (simp add: Let_def)
  next
    case (Some v)
    then have e: "write_ns_decls s (a # l) = write_ns_decls (sink_write ?s3 (quoteattr v)) l"
      unfolding a by (simp add: Let_def)
    show ?thesis unfolding e by (rule Cons.IH)
  qed
qed

lemma write_attrib_appends: "appends s (write_attrib s l)"
proof (induction l arbitrary: s)
  case Nil
  show ?case by (simp add: appends_refl)
next
  case (Cons a l)
  obtain n v where a: "a = (n, v)" by (cases a)
  have "appends s (sink_write (sink_write (sink_write (sink_write s '' '') n) ''='') (quoteattr v))"
    by (simp add: appends_sink_write' appends_sink_write)
  then show ?case unfolding a by simp (erule appends_trans, rule Cons.IH)
qed

lemma qname_attrs_declares_more: "declares_more s (snd (qname_attrs V s attrs))"
proof (induction attrs arbitrary: s)
  case Nil
  show ?case by (simp add: declares_more_refl)
next
  case (Cons a attrs)
  obtain n v where a: "a = (n, v)" by (cases a)
  obtain r s1 where q: "qname V s n True = (r, s1)" by (cases "qname V s n True")
  have d1: "declares_more s s1" using qname_declares_more [of s V n True] q by simp
  show ?case
  proof (cases r)
    case (Inl e)
    with q d1 show ?thesis unfolding a by simp
  next
    case (Inr qn)
    have "declares_more s1 (snd (qname_attrs V s1 attrs))" by (rule Cons.IH)
    with d1 have "declares_more s (snd (qname_attrs V s1 attrs))" by (rule declares_more_trans)
    with q Inr show ?thesis unfolding a
      by (auto split: prod.splits sum.splits)
  qed
qed


lemma write_start_tag_frame:
  "(fst (write_start_tag s3 qn pp attrib nm) = None \<or>
    fst (write_start_tag s3 qn pp attrib nm) = Some AttributeError) \<and>
   (\<exists>w. snd (write_start_tag s3 qn pp attrib nm) =
      s3\<lparr>out := out s3 @ ''<'' @ qn @ w,
         pending_start_element :=
           (if fst (write_start_tag s3 qn pp attrib nm) = None \<and> short_empty_elements s3
            then Some nm else pending_start_element s3)\<rparr>)"
proof -
  define s4 where "s4 = sink_write (sink_write s3 ''<'') qn"
  define X where "X = (case map_of pp None of
                 None \<Rightarrow> (None, s4)
               | Some uri \<Rightarrow>
                   (let s5 = sink_write s4 '' xmlns=''
                    in case uri of
                         None \<Rightarrow> (Some AttributeError, s5)
                       | Some u \<Rightarrow> (None, sink_write s5 (quoteattr u))))"
  define Y where "Y = write_ns_decls (snd X) (sort_key fst (string_items pp))"
  define s8 where "s8 = write_attrib (snd Y) attrib"
  define R where "R = write_start_tag s3 qn pp attrib nm"
  have X1: "appends s4 (snd X)"
    by (simp add: X_def Let_def appends_refl appends_sink_write appends_sink_write'
        split: option.splits)
  have X2: "fst X = None \<or> fst X = Some AttributeError"
    by (simp add: X_def Let_def split: option.splits)
  have "appends (snd X) (snd Y)" unfolding Y_def by (rule write_ns_decls_appends)
  with X1 have Y1: "appends s4 (snd Y)" by (rule appends_trans)
  have Y2: "fst Y = None \<or> fst Y = Some AttributeError"
    unfolding Y_def by (rule write_ns_decls_error)
  have "appends (snd Y) s8" unfolding s8_def by (rule write_attrib_appends)
  with Y1 have Z1: "appends s4 s8" by (rule appends_trans)
  have R0: "R = (case X of
           (Some e, s6) \<Rightarrow> (Some e, s6)
         | (None, s6) \<Rightarrow>
             (case write_ns_decls s6 (sort_key fst (string_items pp)) of
                (Some e, s7) \<Rightarrow> (Some e, s7)
              | (None, s7) \<Rightarrow>
                  (let s8 = write_attrib s7 attrib
                   in if short_empty_elements s8
                      then (None, s8\<lparr>pending_start_element := Some nm\<rparr>)
                      else (None, sink_write s8 ''>''))))"
    unfolding R_def write_start_tag_def X_def s4_def Let_def ..
  have R: "R = (if fst X \<noteq> None then X else if fst Y \<noteq> None then Y
                else if short_empty_elements s8 then (None, s8\<lparr>pending_start_element := Some nm\<rparr>)
                else (None, sink_write s8 ''>''))"
  proof -
    obtain fx sx where x: "X = (fx, sx)" by (cases X)
    obtain fy sy where y: "write_ns_decls sx (sort_key fst (string_items pp)) = (fy, sy)"
      by (cases "write_ns_decls sx (sort_key fst (string_items pp))")
    have yy: "Y = (fy, sy)" unfolding Y_def x using y by simp
    have s8: "s8 = write_attrib sy attrib" unfolding s8_def yy by simp
    show ?thesis unfolding R0 x yy s8
      by (cases fx; cases fy) (simp_all add: y Let_def)
  qed
  have base: "\<exists>w. b = s3\<lparr>out := out s3 @ ''<'' @ qn @ w\<rparr>" if "appends s4 b" for b
  proof -
    from that obtain w where "b = s4\<lparr>out := out s4 @ w\<rparr>" unfolding appends_def ..
    then have "b = s3\<lparr>out := out s3 @ ''<'' @ qn @ w\<rparr>"
      by (simp add: s4_def sink_write_def)
    then show ?thesis ..
  qed
  have "(fst R = None \<or> fst R = Some AttributeError) \<and>
        (\<exists>w. snd R = s3\<lparr>out := out s3 @ ''<'' @ qn @ w,
           pending_start_element :=
             (if fst R = None \<and> short_empty_elements s3 then Some nm else pending_start_element s3)\<rparr>)"
  proof (cases "fst X \<noteq> None")
    case True
    with R X2 have r: "R = X" "fst R = Some AttributeError" by auto
    from base [OF X1] obtain w where "snd X = s3\<lparr>out := out s3 @ ''<'' @ qn @ w\<rparr>" ..
    with r show ?thesis by auto
  next
    case False
    note fx = this
    show ?thesis
    proof (cases "fst Y \<noteq> None")
      case True
      with R fx Y2 have r: "R = Y" "fst R = Some AttributeError" by auto
      from base [OF Y1] obtain w where "snd Y = s3\<lparr>out := out s3 @ ''<'' @ qn @ w\<rparr>" ..
      with r show ?thesis by auto
    next
      case False
      from base [OF Z1] obtain w where w: "s8 = s3\<lparr>out := out s3 @ ''<'' @ qn @ w\<rparr>" ..
      show ?thesis
      proof (cases "short_empty_elements s3")
        case True
        with R fx False w have "R = (None, s8\<lparr>pending_start_element := Some nm\<rparr>)" by simp
        with w True show ?thesis by auto
      next
        case nshort: False
        with R fx False w have "R = (None, sink_write s8 ''>'')" by simp
        then have "fst R = None" "snd R = s3\<lparr>out := out s3 @ ''<'' @ qn @ (w @ ''>'')\<rparr>"
          by (simp_all add: w sink_write_def)
        with nshort show ?thesis by auto
      qed
    qed
  qed
  then show ?thesis unfolding R_def .
qed


lemma startElementNS_alt:
  "startElementNS V s nm attrs =
     (case qname V (finish_pending_start_element s) nm False of
        (Inl e, s1) \<Rightarrow> (Some e, s1)
      | (Inr qn, s1) \<Rightarrow>
          (case qname_attrs V s1 attrs of
             (Inl e, s2) \<Rightarrow> (Some e, s2)
           | (Inr attrib, s2) \<Rightarrow>
               if ''xmlns'' \<in> fst ` set attrib then (Some XmlnsAttribute, s2)
               else
                 (case pin_floating_ns_decls s2 (ns_counter (finish_pending_start_element s)) of
                    (Inl e, s3) \<Rightarrow> (Some e, s3)
                  | (Inr pp, s3) \<Rightarrow> write_start_tag s3 qn pp attrib nm)))"
  unfolding startElementNS_def write_start_tag_def Let_def ..

lemma startElementNS_E:
  assumes "startElementNS V s nm attrs = (r, s1)"
  obtains
    (name_error) e where
      "qname V (finish_pending_start_element s) nm False = (Inl e, s1)" "r = Some e"
  | (attr_error) q sa e where
      "qname V (finish_pending_start_element s) nm False = (Inr q, sa)"
      "qname_attrs V sa attrs = (Inl e, s1)" "r = Some e"
  | (xmlns) q sa at where
      "qname V (finish_pending_start_element s) nm False = (Inr q, sa)"
      "qname_attrs V sa attrs = (Inr at, s1)" "''xmlns'' \<in> fst ` set at"
      "r = Some XmlnsAttribute"
  | (unclosed) q sa at where
      "qname V (finish_pending_start_element s) nm False = (Inr q, sa)"
      "qname_attrs V sa attrs = (Inr at, s1)" "''xmlns'' \<notin> fst ` set at"
      "ns_prefixes_floating_out s1 \<noteq> {}" "r = Some UnclosedPrefix"
  | (written) q sa at sb w where
      "qname V (finish_pending_start_element s) nm False = (Inr q, sa)"
      "qname_attrs V sa attrs = (Inr at, sb)" "''xmlns'' \<notin> fst ` set at"
      "ns_prefixes_floating_out sb = {}" "r = None \<or> r = Some AttributeError"
      "s1 = sb\<lparr>ns_map_stack :=
                 (curr_ns_map sb,
                  fst ` set (ns_prefixes_floating_in sb) - ns_auto_prefixes_floating_in sb,
                  ns_counter (finish_pending_start_element s)) # ns_map_stack sb,
               curr_ns_map := dict_update (curr_ns_map sb) (ns_decls_floating_in sb),
               ns_decls_floating_in := [],
               ns_prefixes_floating_in := [],
               out := out sb @ ''<'' @ q @ w,
               pending_start_element :=
                 (if r = None \<and> short_empty_elements sb then Some nm
                  else pending_start_element sb)\<rparr>"
proof -
  let ?s0 = "finish_pending_start_element s"
  obtain r1 sa where q1: "qname V ?s0 nm False = (r1, sa)" by (cases "qname V ?s0 nm False")
  show thesis
  proof (cases r1)
    case (Inl e)
    with assms q1 have "r = Some e" "s1 = sa" by (simp_all add: startElementNS_alt)
    with q1 Inl show thesis by (intro name_error [of e]) simp_all
  next
    case (Inr q)
    note q1 = q1 [unfolded Inr]
    obtain r2 sb where q2: "qname_attrs V sa attrs = (r2, sb)" by (cases "qname_attrs V sa attrs")
    show thesis
    proof (cases r2)
      case (Inl e)
      with assms q1 q2 have "r = Some e" "s1 = sb" by (simp_all add: startElementNS_alt)
      with q1 q2 Inl show thesis by (intro attr_error [of q sa e]) simp_all
    next
      case (Inr at)
      note q2 = q2 [unfolded Inr]
      show thesis
      proof (cases "''xmlns'' \<in> fst ` set at")
        case True
        with assms q1 q2 have "r = Some XmlnsAttribute" "s1 = sb"
          by (simp_all add: startElementNS_alt)
        with q1 q2 True show thesis by (intro xmlns [of q sa at]) simp_all
      next
        case nx: False
        show thesis
        proof (cases "ns_prefixes_floating_out sb \<noteq> {}")
          case True
          with assms q1 q2 nx have "r = Some UnclosedPrefix" "s1 = sb"
            by (simp_all add: startElementNS_alt pin_floating_ns_decls_def)
          with q1 q2 nx True show thesis by (intro unclosed [of q sa at]) simp_all
        next
          case False
          define P where "P = sb\<lparr>ns_map_stack :=
                 (curr_ns_map sb,
                  fst ` set (ns_prefixes_floating_in sb) - ns_auto_prefixes_floating_in sb,
                  ns_counter ?s0) # ns_map_stack sb,
               curr_ns_map := dict_update (curr_ns_map sb) (ns_decls_floating_in sb),
               ns_decls_floating_in := [],
               ns_prefixes_floating_in := []\<rparr>"
          from assms q1 q2 nx False
          have w: "write_start_tag P q (ns_prefixes_floating_in sb) at nm = (r, s1)"
            by (simp add: startElementNS_alt pin_floating_ns_decls_def P_def)
          from write_start_tag_frame [of P q "ns_prefixes_floating_in sb" at nm]
          obtain w where r: "r = None \<or> r = Some AttributeError"
            and "s1 = P\<lparr>out := out P @ ''<'' @ q @ w,
                   pending_start_element :=
                     (if r = None \<and> short_empty_elements P then Some nm
                      else pending_start_element P)\<rparr>"
            unfolding w by auto
          then have "s1 = sb\<lparr>ns_map_stack :=
                 (curr_ns_map sb,
                  fst ` set (ns_prefixes_floating_in sb) - ns_auto_prefixes_floating_in sb,
                  ns_counter ?s0) # ns_map_stack sb,
               curr_ns_map := dict_update (curr_ns_map sb) (ns_decls_floating_in sb),
               ns_decls_floating_in := [],
               ns_prefixes_floating_in := [],
               out := out sb @ ''<'' @ q @ w,
               pending_start_element :=
                 (if r = None \<and> short_empty_elements sb then Some nm
                  else pending_start_element sb)\<rparr>"
            by (simp add: P_def)
          with q1 q2 nx False r show thesis by (intro written [of q sa at sb w]) simp_all
        qed
      qed
    qed
  qed
qed


lemma qname_frame: "qname V s nm a = (r, s') \<Longrightarrow> declares_more s s'"
  using qname_declares_more [of s V nm a] by simp

lemma qname_attrs_frame: "qname_attrs V s attrs = (r, s') \<Longrightarrow> declares_more s s'"
  using qname_attrs_declares_more [of s V attrs] by simp

lemma resolve_frame:
  assumes "qname V s nm a = (r, sa)" and "qname_attrs V sa attrs = (r', sb)"
  shows "declares_more s sb"
  using assms by (blast intro: declares_more_trans qname_frame qname_attrs_frame)

subsection \<open>Pending prefix declarations\<close>








subsection \<open>Bytes written before an error\<close>

text \<open>
  C9. When a start tag is still pending, \<^verbatim>\<open>startElementNS\<close> writes its closing
  \<^verbatim>\<open>>\<close> first: whatever the call returns, the output begins with the old output followed
  by \<^verbatim>\<open>>\<close>, and when the call raises one of its own errors (invalid name or prefix,
  ambiguous namespace, \<^verbatim>\<open>xmlns\<close> attribute, unclosed prefix) the output is exactly the
  old output followed by \<^verbatim>\<open>>\<close>.
\<close>

theorem startElementNS_writes_before_validating:
  assumes "pending_start_element s \<noteq> None"
  shows "(\<exists>rest. out (snd (startElementNS V s nm attrs)) = out s @ ''>'' @ rest) \<and>
         ((\<exists>e. fst (startElementNS V s nm attrs) = Some e \<and> e \<noteq> AttributeError) \<longrightarrow>
            out (snd (startElementNS V s nm attrs)) = out s @ ''>'')"
proof -
  let ?s0 = "finish_pending_start_element s"
  have s0: "out ?s0 = out s @ ''>''"
    using assms by (simp add: finish_pending_start_element_def sink_write_def)
  obtain r s1 where R: "startElementNS V s nm attrs = (r, s1)"
    by (cases "startElementNS V s nm attrs")
  have "(\<exists>rest. out s1 = out s @ ''>'' @ rest) \<and>
        ((\<exists>e. r = Some e \<and> e \<noteq> AttributeError) \<longrightarrow> out s1 = out s @ ''>'')"
    using R
  proof (cases rule: startElementNS_E)
    case (name_error e)
    then have "out s1 = out ?s0" by (auto dest: qname_frame simp: declares_more_def)
    with s0 show ?thesis by simp
  next
    case (attr_error q sa e)
    then have "out s1 = out ?s0" by (auto dest: resolve_frame simp: declares_more_def)
    with s0 show ?thesis by simp
  next
    case (xmlns q sa at)
    then have "out s1 = out ?s0" by (auto dest: resolve_frame simp: declares_more_def)
    with s0 show ?thesis by simp
  next
    case (unclosed q sa at)
    then have "out s1 = out ?s0" by (auto dest: resolve_frame simp: declares_more_def)
    with s0 show ?thesis by simp
  next
    case (written q sa at sb w)
    then have "out sb = out ?s0" by (auto dest: resolve_frame simp: declares_more_def)
    with s0 written(5,6) show ?thesis by auto
  qed
  with R show ?thesis by simp
qed

theorem startElementNS_writes_before_validating_witness:
  "pending_start_element (snd (startElementNS ascii_name (new_generator True) (None, ''a'') [])) \<noteq> None \<and>
   fst (startElementNS ascii_name
          (snd (startElementNS ascii_name (new_generator True) (None, ''a'') []))
          (None, ''b:c'') []) = Some InvalidName \<and>
   out (snd (startElementNS ascii_name
          (snd (startElementNS ascii_name (new_generator True) (None, ''a'') []))
          (None, ''b:c'') [])) = ''<a>''"
proof -
  let ?g1 = "snd (startElementNS ascii_name (new_generator True) (None, ''a'') [])"
  have p: "pending_start_element ?g1 \<noteq> None" by code_simp
  have o: "out ?g1 = ''<a''" by code_simp
  have e: "fst (startElementNS ascii_name ?g1 (None, ''b:c'') []) = Some InvalidName" by code_simp
  from startElementNS_writes_before_validating [OF p, of ascii_name "(None, ''b:c'')" "[]"] e o p
  show ?thesis by simp
qed

subsection \<open>Automatic prefixes\<close>

lemma finish_fields:
  "ns_counter (finish_pending_start_element s) = ns_counter s"
  "short_empty_elements (finish_pending_start_element s) = short_empty_elements s"
  "pending_start_element (finish_pending_start_element s) = None"
  "curr_ns_map (finish_pending_start_element s) = curr_ns_map s"
  "ns_map_stack (finish_pending_start_element s) = ns_map_stack s"
  "ns_prefixes_floating_in (finish_pending_start_element s) = ns_prefixes_floating_in s"
  "ns_prefixes_floating_out (finish_pending_start_element s) = ns_prefixes_floating_out s"
  "ns_auto_prefixes_floating_in (finish_pending_start_element s) = ns_auto_prefixes_floating_in s"
  "ns_decls_floating_in (finish_pending_start_element s) = ns_decls_floating_in s"
  by (simp_all add: finish_pending_start_element_def sink_write_def)

lemma startElementNS_counter: "ns_counter s \<le> ns_counter (snd (startElementNS V s nm attrs))"
proof -
  let ?s0 = "finish_pending_start_element s"
  obtain r s1 where R: "startElementNS V s nm attrs = (r, s1)"
    by (cases "startElementNS V s nm attrs")
  have "ns_counter ?s0 \<le> ns_counter s1"
    using R
  proof (cases rule: startElementNS_E)
    case (name_error e)
    then show ?thesis by (auto dest: qname_frame simp: declares_more_def)
  next
    case (attr_error q sa e)
    then show ?thesis by (auto dest: resolve_frame simp: declares_more_def)
  next
    case (xmlns q sa at)
    then show ?thesis by (auto dest: resolve_frame simp: declares_more_def)
  next
    case (unclosed q sa at)
    then show ?thesis by (auto dest: resolve_frame simp: declares_more_def)
  next
    case (written q sa at sb w)
    then have "ns_counter ?s0 \<le> ns_counter sb" by (auto dest: resolve_frame simp: declares_more_def)
    with written(6) show ?thesis by simp
  qed
  with R show ?thesis by (simp add: finish_fields)
qed

lemma endElementNS_pops:
  assumes "endElementNS V s nm = (None, s1)"
  shows "ns_map_stack s =
           (curr_ns_map s1, ns_prefixes_floating_out s1, ns_counter s1) # ns_map_stack s1"
proof (cases "pending_start_element s = Some nm")
  case True
  with assms show ?thesis
    by (auto simp: endElementNS_def sink_write_def split: if_splits list.splits)
next
  case False
  obtain r s2 where q: "qname V (sink_write s ''</'') nm False = (r, s2)"
    by (cases "qname V (sink_write s ''</'') nm False")
  then have "declares_more (sink_write s ''</'') s2" by (rule qname_frame)
  then have st: "ns_map_stack s2 = ns_map_stack s" by (simp add: declares_more_def sink_write_def)
  from assms False q st show ?thesis
    by (auto simp: endElementNS_def Let_def sink_write_def split: if_splits list.splits sum.splits)
qed

text \<open>
  C1, as amended. \<^verbatim>\<open>_roll_prefix\<close> returns \<^verbatim>\<open>ns\<close> followed by a number greater than the
  counter, which becomes the counter, and the prefix is not pending. A later
  \<^verbatim>\<open>_roll_prefix\<close> returns another prefix as long as the counter has not gone below that
  number, and \<^verbatim>\<open>startPrefixMapping\<close>, \<^verbatim>\<open>startElementNS\<close>, \<^verbatim>\<open>characters\<close>,
  \<^verbatim>\<open>flush\<close> and \<^verbatim>\<open>endPrefixMapping\<close> never lower the counter. \<^verbatim>\<open>endElementNS\<close> does: it
  puts the counter back to the value it had when the element was opened.
\<close>

theorem roll_prefix_fresh_until_close:
  "ns_counter s < ns_counter (snd (roll_prefix s)) \<and>
   fst (roll_prefix s) = ''ns'' @ str_int (ns_counter (snd (roll_prefix s))) \<and>
   Some (fst (roll_prefix s)) \<notin> fst ` set (ns_prefixes_floating_in s) \<and>
   (ns_counter (snd (roll_prefix s)) \<le> ns_counter t \<longrightarrow>
      fst (roll_prefix t) \<noteq> fst (roll_prefix s)) \<and>
   ns_counter s \<le> ns_counter (snd (startPrefixMapping V s p u a)) \<and>
   ns_counter s \<le> ns_counter (snd (startElementNS V s nm attrs)) \<and>
   ns_counter s \<le> ns_counter (snd (characters s cs)) \<and>
   ns_counter s \<le> ns_counter (flush s) \<and>
   ns_counter s \<le> ns_counter (snd (endPrefixMapping s p)) \<and>
   (startElementNS V s nm attrs = (None, so) \<and> endElementNS V so nmc = (None, sc) \<longrightarrow>
      ns_counter sc = ns_counter s)"
proof -
  have distinct: "fst (roll_prefix t) \<noteq> fst (roll_prefix s)"
    if "ns_counter (snd (roll_prefix s)) \<le> ns_counter t"
  proof
    assume "fst (roll_prefix t) = fst (roll_prefix s)"
    then have "str_int (ns_counter (snd (roll_prefix t))) = str_int (ns_counter (snd (roll_prefix s)))"
      by (simp add: roll_prefix_fields(3))
    then have "ns_counter (snd (roll_prefix t)) = ns_counter (snd (roll_prefix s))"
      by (rule str_int_inj)
    with that roll_prefix_fields(2) [of t] show False by simp
  qed
  have reset: "ns_counter sc = ns_counter s"
    if o: "startElementNS V s nm attrs = (None, so)" and c: "endElementNS V so nmc = (None, sc)"
  proof -
    from o have "\<exists>m fo rest. ns_map_stack so = (m, fo, ns_counter (finish_pending_start_element s)) # rest"
      by (cases rule: startElementNS_E) simp_all
    with endElementNS_pops [OF c] show ?thesis by (auto simp: finish_fields)
  qed
  have "ns_counter s \<le> ns_counter (snd (startPrefixMapping V s p u a))"
    by (simp add: startPrefixMapping_def)
  moreover have "ns_counter s \<le> ns_counter (snd (characters s cs))"
    by (simp add: characters_def Let_def finish_fields sink_write_def split: option.splits)
  moreover have "ns_counter s \<le> ns_counter (flush s)"
    by (simp add: flush_def finish_fields)
  moreover have "ns_counter s \<le> ns_counter (snd (endPrefixMapping s p))"
    by (simp add: endPrefixMapping_def)
  ultimately show ?thesis
    using roll_prefix_fields(2-4) [of s] distinct reset startElementNS_counter [of s V nm attrs]
    by blast
qed


theorem roll_prefix_fresh_until_close_witness:
  "ns_counter (snd (roll_prefix (new_generator True))) \<le> ns_counter (snd (roll_prefix (new_generator True))) \<and>
   fst (roll_prefix (snd (roll_prefix (new_generator True)))) \<noteq> fst (roll_prefix (new_generator True)) \<and>
   fst (startElementNS ascii_name (new_generator True) (Some ''u'', ''a'') []) = None \<and>
   fst (endElementNS ascii_name
          (snd (startElementNS ascii_name (new_generator True) (Some ''u'', ''a'') []))
          (Some ''u'', ''a'')) = None \<and>
   ns_counter (snd (endElementNS ascii_name
          (snd (startElementNS ascii_name (new_generator True) (Some ''u'', ''a'') []))
          (Some ''u'', ''a''))) = ns_counter (new_generator True)"
proof -
  let ?g0 = "new_generator True"
  let ?g1 = "snd (startElementNS ascii_name ?g0 (Some ''u'', ''a'') [])"
  let ?g2 = "snd (endElementNS ascii_name ?g1 (Some ''u'', ''a''))"
  have a: "fst (startElementNS ascii_name ?g0 (Some ''u'', ''a'') []) = None" by code_simp
  have b: "fst (endElementNS ascii_name ?g1 (Some ''u'', ''a'')) = None" by code_simp
  from a have a': "startElementNS ascii_name ?g0 (Some ''u'', ''a'') [] = (None, ?g1)"
    by (simp add: prod_eq_iff)
  from b have b': "endElementNS ascii_name ?g1 (Some ''u'', ''a'') = (None, ?g2)"
    by (simp add: prod_eq_iff)
  from roll_prefix_fresh_until_close
    [where s = ?g0 and t = "snd (roll_prefix ?g0)" and V = ascii_name and nm = "(Some ''u'', ''a'')"
       and attrs = "[]" and so = ?g1 and sc = ?g2 and nmc = "(Some ''u'', ''a'')"]
  have d: "ns_counter (snd (roll_prefix ?g0)) \<le> ns_counter (snd (roll_prefix ?g0)) \<longrightarrow>
             fst (roll_prefix (snd (roll_prefix ?g0))) \<noteq> fst (roll_prefix ?g0)"
    and r: "startElementNS ascii_name ?g0 (Some ''u'', ''a'') [] = (None, ?g1) \<and>
            endElementNS ascii_name ?g1 (Some ''u'', ''a'') = (None, ?g2) \<longrightarrow>
            ns_counter ?g2 = ns_counter ?g0"
    by blast+
  from d r a' b' a b show ?thesis by blast
qed

text \<open>
  The claim as stated fails across an element's end: the prefix allocated for the first
  element is allocated again for its sibling.
\<close>

theorem prefix_reissued_after_close:
  "fst (roll_prefix (new_generator True)) = ''ns0'' \<and>
   fst (qname ascii_name (new_generator True) (Some ''u'', ''a'') False) = Inr ''ns0:a'' \<and>
   fst (startElementNS ascii_name (new_generator True) (Some ''u'', ''a'') []) = None \<and>
   fst (endElementNS ascii_name
          (snd (startElementNS ascii_name (new_generator True) (Some ''u'', ''a'') []))
          (Some ''u'', ''a'')) = None \<and>
   fst (roll_prefix (snd (endElementNS ascii_name
          (snd (startElementNS ascii_name (new_generator True) (Some ''u'', ''a'') []))
          (Some ''u'', ''a'')))) = ''ns0'' \<and>
   fst (qname ascii_name (snd (endElementNS ascii_name
          (snd (startElementNS ascii_name (new_generator True) (Some ''u'', ''a'') []))
          (Some ''u'', ''a''))) (Some ''v'', ''b'') False) = Inr ''ns0:b''"
  by code_simp

subsection \<open>Empty elements\<close>

lemma dict_update_keys: "fst ` set (dict_update d e) = fst ` set d \<union> fst ` set e"
  unfolding dict_update_def
proof (induction e arbitrary: d)
  case Nil
  show ?case by simp
next
  case (Cons a e)
  obtain k v where a: "a = (k, v)" by (cases a)
  have "fst ` set (fold (\<lambda>(k, v). AList.update k v) e (AList.update k v d)) =
          fst ` set (AList.update k v d) \<union> fst ` set e"
    by (rule Cons.IH)
  then show ?case unfolding a by (auto simp: AList.dom_update)
qed

lemma qname_unnamespaced:
  "\<not> truthy (fst nm) \<Longrightarrow>
   qname V s nm attr =
     (if CHR '':'' \<in> set (snd nm) \<or> \<not> xmlValidateNameValue_str V (snd nm)
      then (Inl InvalidName, s)
      else if \<not> attr \<and> (None \<in> fst ` set (curr_ns_map s) \<or>
                           None \<in> fst ` set (ns_prefixes_floating_in s))
      then (Inl AmbiguousNamespace, s)
      else (Inr (snd nm), s))"
  by (simp add: qname_def)

lemma endElementNS_short:
  assumes "pending_start_element s = Some nm" and "ns_prefixes_floating_out s = {}"
    and "ns_map_stack s \<noteq> []"
  shows "\<exists>s2. endElementNS V s nm = (None, s2) \<and> out s2 = out s @ ''/>''"
  using assms by (cases "ns_map_stack s") (auto simp: endElementNS_def sink_write_def)

lemma endElementNS_long:
  assumes "pending_start_element s \<noteq> Some nm" and "ns_prefixes_floating_out s = {}"
    and "ns_map_stack s \<noteq> []"
    and "qname V (sink_write s ''</'') nm False = (Inr q, sink_write s ''</'')"
  shows "\<exists>s2. endElementNS V s nm = (None, s2) \<and> out s2 = out s @ ''</'' @ q @ ''>''"
  using assms by (cases "ns_map_stack s") (auto simp: endElementNS_def Let_def sink_write_def)

text \<open>
  C7, at a failing input. The namespace \<^verbatim>\<open>u\<close> is active under the prefix \<^verbatim>\<open>a\<close> and is
  declared again, under the prefix \<^verbatim>\<open>b\<close>, for an element of \<^verbatim>\<open>u\<close>. The start tag is
  written with the active prefix. Closed at once, the element gets the short form. With a
  \<^verbatim>\<open>flush()\<close> in between, \<^verbatim>\<open>endElementNS\<close> resolves the name again, now finds the new
  declaration in the active map, and writes an end tag that does not match the start tag:
  not the long form \<^verbatim>\<open><foo></foo>\<close> that the docstring of the class describes.
\<close>

theorem long_form_end_tag_mismatch:
  "(let g1 = snd (startPrefixMapping ascii_name (new_generator True) (Some ''a'') (Some ''u'') False);
        g2 = snd (startElementNS ascii_name g1 (Some ''u'', ''r'') []);
        g3 = snd (startPrefixMapping ascii_name g2 (Some ''b'') (Some ''u'') False);
        g4 = snd (startElementNS ascii_name g3 (Some ''u'', ''e'') []);
        g5 = flush g4;
        g6 = snd (endElementNS ascii_name g5 (Some ''u'', ''e''))
    in short_empty_elements (new_generator True) \<and>
       fst (startPrefixMapping ascii_name (new_generator True) (Some ''a'') (Some ''u'') False) = None \<and>
       fst (startElementNS ascii_name g1 (Some ''u'', ''r'') []) = None \<and>
       fst (startPrefixMapping ascii_name g2 (Some ''b'') (Some ''u'') False) = None \<and>
       fst (qname ascii_name (finish_pending_start_element g3) (Some ''u'', ''e'') False) = Inr ''a:e'' \<and>
       fst (startElementNS ascii_name g3 (Some ''u'', ''e'') []) = None \<and>
       fst (qname ascii_name g5 (Some ''u'', ''e'') False) = Inr ''b:e'' \<and>
       fst (endElementNS ascii_name g5 (Some ''u'', ''e'')) = None \<and>
       out g6 = ''<a:r xmlns:a='' @ quoteattr ''u'' @ ''><a:e xmlns:b='' @ quoteattr ''u'' @
                  ''></b:e>'' \<and>
       out (snd (endElementNS ascii_name g4 (Some ''u'', ''e''))) =
         ''<a:r xmlns:a='' @ quoteattr ''u'' @ ''><a:e xmlns:b='' @ quoteattr ''u'' @ ''/>'')"
  by code_simp

theorem long_form_end_tag_mismatch_witness:
  "(let g1 = snd (startPrefixMapping ascii_name (new_generator True) (Some ''a'') (Some ''u'') False);
        g2 = snd (startElementNS ascii_name g1 (Some ''u'', ''r'') []);
        g3 = snd (startPrefixMapping ascii_name g2 (Some ''b'') (Some ''u'') False);
        g4 = snd (startElementNS ascii_name g3 (Some ''u'', ''e'') []);
        g5 = flush g4
    in fst (qname ascii_name (finish_pending_start_element g3) (Some ''u'', ''e'') False) \<noteq>
       fst (qname ascii_name g5 (Some ''u'', ''e'') False))"
  using long_form_end_tag_mismatch by (simp add: Let_def)

text \<open>
  X6. With \<^verbatim>\<open>short_empty_elements\<close>, after a successful \<^verbatim>\<open>startElementNS\<close> the matching
  \<^verbatim>\<open>endElementNS\<close> succeeds and writes exactly \<^verbatim>\<open>/>\<close>, for every element. With a
  \<^verbatim>\<open>flush()\<close> in between, for an element without namespace (no prefix mapping of the
  absent URI being pending at the start), \<^verbatim>\<open>endElementNS\<close> succeeds and the two calls
  write \<^verbatim>\<open>></name>\<close>. When no prefix mapping was pending and there are no attributes,
  the start tag written for such an element is \<^verbatim>\<open><name\<close>: the two forms are
  \<^verbatim>\<open><e/>\<close> and \<^verbatim>\<open><e></e>\<close>.
\<close>

theorem short_and_long_empty_element:
  assumes short: "short_empty_elements s"
    and start: "startElementNS V s nm attrs = (None, so)"
  shows "(\<exists>sc. endElementNS V so nm = (None, sc) \<and> out sc = out so @ ''/>'') \<and>
         (\<not> truthy (fst nm) \<and> None \<notin> fst ` set (ns_decls_floating_in s) \<longrightarrow>
            (\<exists>sc. endElementNS V (flush so) nm = (None, sc) \<and>
                  out sc = out so @ ''></'' @ snd nm @ ''>'')) \<and>
         (\<not> truthy (fst nm) \<and> ns_prefixes_floating_in s = [] \<and> attrs = [] \<longrightarrow>
            out so = out (finish_pending_start_element s) @ ''<'' @ snd nm)"
proof -
  let ?s0 = "finish_pending_start_element s"
  from start obtain q sa at sb w where
    q1: "qname V ?s0 nm False = (Inr q, sa)" and q2: "qname_attrs V sa attrs = (Inr at, sb)"
    and fo: "ns_prefixes_floating_out sb = {}"
    and so: "so = sb\<lparr>ns_map_stack :=
                 (curr_ns_map sb,
                  fst ` set (ns_prefixes_floating_in sb) - ns_auto_prefixes_floating_in sb,
                  ns_counter ?s0) # ns_map_stack sb,
               curr_ns_map := dict_update (curr_ns_map sb) (ns_decls_floating_in sb),
               ns_decls_floating_in := [],
               ns_prefixes_floating_in := [],
               out := out sb @ ''<'' @ q @ w,
               pending_start_element :=
                 (if short_empty_elements sb then Some nm else pending_start_element sb)\<rparr>"
    by (cases rule: startElementNS_E) simp_all
  have d1: "declares_more ?s0 sa" using q1 by (rule qname_frame)
  have d2: "declares_more sa sb" using q2 by (rule qname_attrs_frame)
  have d: "declares_more ?s0 sb" using d1 d2 by (rule declares_more_trans)
  from d short have sh: "short_empty_elements sb" by (simp add: declares_more_def finish_fields)
  have p: "pending_start_element so = Some nm" and f: "ns_prefixes_floating_out so = {}"
    and st: "ns_map_stack so \<noteq> []"
    unfolding so using sh fo by simp_all
  have A: "\<exists>sc. endElementNS V so nm = (None, sc) \<and> out sc = out so @ ''/>''"
    using p f st by (rule endElementNS_short)
  have B: "\<exists>sc. endElementNS V (flush so) nm = (None, sc) \<and>
                  out sc = out so @ ''></'' @ snd nm @ ''>''"
    if un: "\<not> truthy (fst nm)" and nd: "None \<notin> fst ` set (ns_decls_floating_in s)"
  proof -
    from q1 un have valid: "\<not> (CHR '':'' \<in> set (snd nm) \<or> \<not> xmlValidateNameValue_str V (snd nm))"
      and nc: "None \<notin> fst ` set (curr_ns_map ?s0)"
      by (auto simp: qname_unnamespaced split: if_splits)
    from d nc have nc': "None \<notin> fst ` set (curr_ns_map sb)" by (simp add: declares_more_def)
    from d1 d2 nd have nd': "None \<notin> fst ` set (ns_decls_floating_in sb)"
      by (simp add: declares_more_def finish_fields)
    let ?f = "flush so"
    have fl: "?f = so\<lparr>pending_start_element := None, out := out so @ ''>'', flushes := flushes so + 1\<rparr>"
      using p by (simp add: flush_def finish_pending_start_element_def sink_write_def)
    have cs: "curr_ns_map so = dict_update (curr_ns_map sb) (ns_decls_floating_in sb)"
      and fi: "ns_prefixes_floating_in so = []"
      unfolding so by simp_all
    have "curr_ns_map (sink_write ?f ''</'') = dict_update (curr_ns_map sb) (ns_decls_floating_in sb)"
      and "ns_prefixes_floating_in (sink_write ?f ''</'') = []"
      by (simp_all add: fl sink_write_def cs fi)
    with nc' nd' valid un
    have qn: "qname V (sink_write ?f ''</'') nm False = (Inr (snd nm), sink_write ?f ''</'')"
      by (simp add: qname_unnamespaced dict_update_keys)
    have "pending_start_element ?f \<noteq> Some nm" "ns_prefixes_floating_out ?f = {}"
      "ns_map_stack ?f \<noteq> []"
      using f st by (simp_all add: fl)
    from endElementNS_long [OF this qn]
    obtain sc where "endElementNS V ?f nm = (None, sc)" "out sc = out ?f @ ''</'' @ snd nm @ ''>''"
      by blast
    moreover have "out ?f = out so @ ''>''" by (simp add: fl)
    ultimately show ?thesis by simp
  qed
  have C: "out so = out ?s0 @ ''<'' @ snd nm"
    if un: "\<not> truthy (fst nm)" and np: "ns_prefixes_floating_in s = []" and na: "attrs = []"
  proof -
    from q1 un have q: "q = snd nm" "sa = ?s0"
      by (auto simp: qname_unnamespaced split: if_splits)
    from q2 na q have sb: "sb = ?s0" "at = []" by simp_all
    have "ns_prefixes_floating_in ?s0 = []" using np by (simp add: finish_fields)
    with start q1 q sb na fo short
    have "so = snd (write_start_tag
                 (?s0\<lparr>ns_map_stack := (curr_ns_map ?s0, {} - ns_auto_prefixes_floating_in ?s0, ns_counter ?s0) # ns_map_stack ?s0,
                       curr_ns_map := dict_update (curr_ns_map ?s0) (ns_decls_floating_in ?s0),
                       ns_decls_floating_in := [], ns_prefixes_floating_in := []\<rparr>)
                 (snd nm) [] [] nm)"
      by (simp add: startElementNS_alt pin_floating_ns_decls_def)
    then show ?thesis
      using short by (simp add: write_start_tag_def sink_write_def finish_fields)
  qed
  from A B C show ?thesis by blast
qed


theorem short_and_long_empty_element_witness:
  "short_empty_elements (new_generator True) \<and>
   fst (startElementNS ascii_name (new_generator True) (None, ''e'') []) = None \<and>
   fst (endElementNS ascii_name
          (snd (startElementNS ascii_name (new_generator True) (None, ''e'') [])) (None, ''e'')) = None \<and>
   out (snd (endElementNS ascii_name
          (snd (startElementNS ascii_name (new_generator True) (None, ''e'') [])) (None, ''e''))) = ''<e/>'' \<and>
   fst (endElementNS ascii_name
          (flush (snd (startElementNS ascii_name (new_generator True) (None, ''e'') []))) (None, ''e'')) = None \<and>
   out (snd (endElementNS ascii_name
          (flush (snd (startElementNS ascii_name (new_generator True) (None, ''e'') []))) (None, ''e''))) =
     ''<e></e>''"
proof -
  let ?g0 = "new_generator True"
  let ?g1 = "snd (startElementNS ascii_name ?g0 (None, ''e'') [])"
  have sh: "short_empty_elements ?g0" by (simp add: new_generator_def)
  have a: "fst (startElementNS ascii_name ?g0 (None, ''e'') []) = None" by code_simp
  then have st: "startElementNS ascii_name ?g0 (None, ''e'') [] = (None, ?g1)"
    by (simp add: prod_eq_iff)
  have un: "\<not> truthy (fst (None :: string option, ''e''))" by (simp add: truthy_def)
  have nd: "None \<notin> fst ` set (ns_decls_floating_in ?g0)" by (simp add: new_generator_def)
  have np: "ns_prefixes_floating_in ?g0 = []" by (simp add: new_generator_def)
  have o0: "out (finish_pending_start_element ?g0) = []"
    by (simp add: finish_pending_start_element_def new_generator_def)
  from short_and_long_empty_element [OF sh st] un nd np o0
  obtain sc sd where "endElementNS ascii_name ?g1 (None, ''e'') = (None, sc)"
    and "out sc = out ?g1 @ ''/>''"
    and "endElementNS ascii_name (flush ?g1) (None, ''e'') = (None, sd)"
    and "out sd = out ?g1 @ ''></e>''"
    and "out ?g1 = ''<e''"
    by auto
  with sh a show ?thesis by simp
qed

subsection \<open>Prefixes that were not closed\<close>

text \<open>
  C5, at a failing input. Inside a root element, an element of a namespace that has no
  prefix is opened and closed, which allocates \<^verbatim>\<open>ns0\<close>. Then \<^verbatim>\<open>ns0\<close> is declared by
  an explicit \<^verbatim>\<open>startPrefixMapping\<close> and an element is opened and closed, and
  \<^verbatim>\<open>endPrefixMapping\<close> is not called. The docstring of \<^verbatim>\<open>startPrefixMapping\<close> promises a
  \<^verbatim>\<open>RuntimeError\<close> at the next \<^verbatim>\<open>startElementNS\<close> or \<^verbatim>\<open>endElementNS\<close>; both succeed.
  The set of automatic prefixes is never emptied, so the explicit \<^verbatim>\<open>ns0\<close> is taken for
  an automatic one and the set of prefixes to close stays empty.
\<close>

theorem reused_automatic_prefix_not_tracked:
  "(let g1 = snd (startElementNS ascii_name (new_generator True) (None, ''root'') []);
        g2 = snd (startElementNS ascii_name g1 (Some ''u'', ''a'') []);
        g3 = snd (endElementNS ascii_name g2 (Some ''u'', ''a''));
        g4 = snd (startPrefixMapping ascii_name g3 (Some ''ns0'') (Some ''v'') False);
        g5 = snd (startElementNS ascii_name g4 (Some ''v'', ''b'') []);
        g6 = snd (endElementNS ascii_name g5 (Some ''v'', ''b''))
    in fst (startElementNS ascii_name (new_generator True) (None, ''root'') []) = None \<and>
       fst (startElementNS ascii_name g1 (Some ''u'', ''a'') []) = None \<and>
       fst (endElementNS ascii_name g2 (Some ''u'', ''a'')) = None \<and>
       fst (startPrefixMapping ascii_name g3 (Some ''ns0'') (Some ''v'') False) = None \<and>
       ns_prefixes_floating_in g4 = [(Some ''ns0'', Some ''v'')] \<and>
       ns_auto_prefixes_floating_in g4 = {Some ''ns0''} \<and>
       fst (startElementNS ascii_name g4 (Some ''v'', ''b'') []) = None \<and>
       fst (endElementNS ascii_name g5 (Some ''v'', ''b'')) = None \<and>
       ns_prefixes_floating_out g6 = {} \<and>
       fst (startElementNS ascii_name g6 (None, ''c'') []) = None \<and>
       fst (endElementNS ascii_name g6 (None, ''root'')) = None \<and>
       out g6 = ''<root><ns0:a xmlns:ns0='' @ quoteattr ''u'' @ ''/><ns0:b xmlns:ns0='' @
                  quoteattr ''v'' @ ''/>'')"
  by code_simp

theorem reused_automatic_prefix_not_tracked_witness:
  "(let g1 = snd (startElementNS ascii_name (new_generator True) (None, ''root'') []);
        g2 = snd (startElementNS ascii_name g1 (Some ''u'', ''a'') []);
        g3 = snd (endElementNS ascii_name g2 (Some ''u'', ''a''));
        g4 = snd (startPrefixMapping ascii_name g3 (Some ''ns0'') (Some ''v'') False);
        g5 = snd (startElementNS ascii_name g4 (Some ''v'', ''b'') []);
        g6 = snd (endElementNS ascii_name g5 (Some ''v'', ''b''))
    in fst (startElementNS ascii_name g6 (None, ''c'') []) \<noteq> Some UnclosedPrefix \<and>
       fst (endElementNS ascii_name g6 (None, ''root'')) \<noteq> Some UnclosedPrefix)"
  using reused_automatic_prefix_not_tracked by (simp add: Let_def)

text \<open>
  X5. What the generator enforces. While the set of prefixes to close is not empty,
  \<^verbatim>\<open>endElementNS\<close> raises the \<^verbatim>\<open>RuntimeError\<close> "namespace prefix has not been closed" and
  changes nothing, and \<^verbatim>\<open>startElementNS\<close> raises too: that same error when the names of
  the element and of its attributes resolve and no attribute is called \<^verbatim>\<open>xmlns\<close>, the
  \<^verbatim>\<open>ValueError\<close> of the name otherwise. A prefix declared by an explicit
  \<^verbatim>\<open>startPrefixMapping\<close>, and not in the set of automatic prefixes, is in the set once
  the next element has been opened and closed. \<^verbatim>\<open>endPrefixMapping\<close> of a member of the
  set removes that member and nothing else; for any other prefix it raises and changes
  nothing.
\<close>

theorem must_close_set_enforced:
  "(ns_prefixes_floating_out s \<noteq> {} \<longrightarrow>
      endElementNS V s nm = (Some UnclosedPrefix, s) \<and>
      class_of UnclosedPrefix = RuntimeError \<and>
      fst (startElementNS V s nm attrs) \<noteq> None \<and>
      (qname V (finish_pending_start_element s) nm False = (Inr q, sa) \<and>
       qname_attrs V sa attrs = (Inr at, sb) \<and> ''xmlns'' \<notin> fst ` set at \<longrightarrow>
         startElementNS V s nm attrs = (Some UnclosedPrefix, sb))) \<and>
   (startPrefixMapping V g p u False = (None, gd) \<and> p \<notin> ns_auto_prefixes_floating_in g \<and>
    startElementNS V gd nmo attrso = (None, go) \<and> endElementNS V go nmc = (None, gc) \<longrightarrow>
      p \<in> ns_prefixes_floating_out gc) \<and>
   (pc \<in> ns_prefixes_floating_out s \<longrightarrow>
      endPrefixMapping s pc =
        (None, s\<lparr>ns_prefixes_floating_out := ns_prefixes_floating_out s - {pc}\<rparr>)) \<and>
   (pc \<notin> ns_prefixes_floating_out s \<longrightarrow>
      fst (endPrefixMapping s pc) \<noteq> None \<and> snd (endPrefixMapping s pc) = s)"
proof -
  have A: "endElementNS V s nm = (Some UnclosedPrefix, s)" if "ns_prefixes_floating_out s \<noteq> {}"
    using that by (simp add: endElementNS_def)
  have B: "fst (startElementNS V s nm attrs) \<noteq> None" if ne: "ns_prefixes_floating_out s \<noteq> {}"
  proof -
    obtain r s1 where R: "startElementNS V s nm attrs = (r, s1)"
      by (cases "startElementNS V s nm attrs")
    have "r \<noteq> None" using R
    proof (cases rule: startElementNS_E)
      case (written q sa at sb w)
      then have "declares_more (finish_pending_start_element s) sb" by (auto dest: resolve_frame)
      then have "ns_prefixes_floating_out sb = ns_prefixes_floating_out s"
        by (simp add: declares_more_def finish_fields)
      with written(4) ne show ?thesis by simp
    qed simp_all
    with R show ?thesis by simp
  qed
  have C: "startElementNS V s nm attrs = (Some UnclosedPrefix, sb)"
    if ne: "ns_prefixes_floating_out s \<noteq> {}"
      and q1: "qname V (finish_pending_start_element s) nm False = (Inr q, sa)"
      and q2: "qname_attrs V sa attrs = (Inr at, sb)" and nx: "''xmlns'' \<notin> fst ` set at"
  proof -
    from q1 q2 have "declares_more (finish_pending_start_element s) sb" by (rule resolve_frame)
    then have "ns_prefixes_floating_out sb = ns_prefixes_floating_out s"
      by (simp add: declares_more_def finish_fields)
    with ne q1 q2 nx show ?thesis
      by (simp add: startElementNS_alt pin_floating_ns_decls_def)
  qed
  have D: "p \<in> ns_prefixes_floating_out gc"
    if d: "startPrefixMapping V g p u False = (None, gd)"
      and na: "p \<notin> ns_auto_prefixes_floating_in g"
      and o: "startElementNS V gd nmo attrso = (None, go)"
      and c: "endElementNS V go nmc = (None, gc)"
  proof -
    from d have ok: "fst (startPrefixMapping V g p u False) = None"
      and gd: "gd = snd (startPrefixMapping V g p u False)" by simp_all
    have pk: "p \<in> fst ` set (ns_prefixes_floating_in gd)"
      unfolding gd using startPrefixMapping_keys [OF ok] by simp
    have "ns_auto_prefixes_floating_in gd = ns_auto_prefixes_floating_in g"
      unfolding gd by (simp add: startPrefixMapping_def)
    with na have pa: "p \<notin> ns_auto_prefixes_floating_in gd" by simp
    from o obtain sb where dm: "declares_more (finish_pending_start_element gd) sb"
      and st: "\<exists>m c rest. ns_map_stack go =
                 (m, fst ` set (ns_prefixes_floating_in sb) - ns_auto_prefixes_floating_in sb, c) # rest"
    proof (cases rule: startElementNS_E)
      case (written q sa at sb w)
      from written(1,2) have "declares_more (finish_pending_start_element gd) sb"
        by (rule resolve_frame)
      moreover from written(6) have "\<exists>m c rest. ns_map_stack go =
                 (m, fst ` set (ns_prefixes_floating_in sb) - ns_auto_prefixes_floating_in sb, c) # rest"
        by simp
      ultimately show ?thesis by (rule that)
    qed simp_all
    from dm pk have "p \<in> fst ` set (ns_prefixes_floating_in sb)"
      by (auto simp: declares_more_def finish_fields)
    moreover from dm pk pa have "p \<notin> ns_auto_prefixes_floating_in sb"
      by (auto simp: declares_more_def finish_fields)
    ultimately show ?thesis using st endElementNS_pops [OF c] by auto
  qed
  have E: "pc \<in> ns_prefixes_floating_out s \<longrightarrow>
      endPrefixMapping s pc =
        (None, s\<lparr>ns_prefixes_floating_out := ns_prefixes_floating_out s - {pc}\<rparr>)"
    and F: "pc \<notin> ns_prefixes_floating_out s \<longrightarrow>
      fst (endPrefixMapping s pc) \<noteq> None \<and> snd (endPrefixMapping s pc) = s"
    by (simp_all add: endPrefixMapping_def)
  have G: "class_of UnclosedPrefix = RuntimeError" by simp
  from A B C D E F G show ?thesis by blast
qed


theorem must_close_set_enforced_witness:
  "Some ''a'' \<in> ns_prefixes_floating_out
      (snd (endElementNS ascii_name
        (snd (startElementNS ascii_name
          (snd (startPrefixMapping ascii_name (new_generator True) (Some ''a'') (Some ''uri:x'') False))
          (Some ''uri:x'', ''e'') []))
        (Some ''uri:x'', ''e''))) \<and>
   fst (endElementNS ascii_name
      (snd (endElementNS ascii_name
        (snd (startElementNS ascii_name
          (snd (startPrefixMapping ascii_name (new_generator True) (Some ''a'') (Some ''uri:x'') False))
          (Some ''uri:x'', ''e'') []))
        (Some ''uri:x'', ''e'')))
      (None, ''c'')) = Some UnclosedPrefix \<and>
   fst (startElementNS ascii_name
      (snd (endElementNS ascii_name
        (snd (startElementNS ascii_name
          (snd (startPrefixMapping ascii_name (new_generator True) (Some ''a'') (Some ''uri:x'') False))
          (Some ''uri:x'', ''e'') []))
        (Some ''uri:x'', ''e'')))
      (None, ''c'') []) = Some UnclosedPrefix"
proof -
  let ?g = "new_generator True"
  let ?gd = "snd (startPrefixMapping ascii_name ?g (Some ''a'') (Some ''uri:x'') False)"
  let ?go = "snd (startElementNS ascii_name ?gd (Some ''uri:x'', ''e'') [])"
  let ?gc = "snd (endElementNS ascii_name ?go (Some ''uri:x'', ''e''))"
  let ?sa = "snd (qname ascii_name (finish_pending_start_element ?gc) (None, ''c'') False)"
  have "fst (startPrefixMapping ascii_name ?g (Some ''a'') (Some ''uri:x'') False) = None"
    by code_simp
  then have d: "startPrefixMapping ascii_name ?g (Some ''a'') (Some ''uri:x'') False = (None, ?gd)"
    by (simp add: prod_eq_iff)
  have na: "Some ''a'' \<notin> ns_auto_prefixes_floating_in ?g" by (simp add: new_generator_def)
  have "fst (startElementNS ascii_name ?gd (Some ''uri:x'', ''e'') []) = None" by code_simp
  then have o: "startElementNS ascii_name ?gd (Some ''uri:x'', ''e'') [] = (None, ?go)"
    by (simp add: prod_eq_iff)
  have "fst (endElementNS ascii_name ?go (Some ''uri:x'', ''e'')) = None" by code_simp
  then have c: "endElementNS ascii_name ?go (Some ''uri:x'', ''e'') = (None, ?gc)"
    by (simp add: prod_eq_iff)
  have "fst (qname ascii_name (finish_pending_start_element ?gc) (None, ''c'') False) = Inr ''c''"
    by code_simp
  then have q1: "qname ascii_name (finish_pending_start_element ?gc) (None, ''c'') False = (Inr ''c'', ?sa)"
    by (simp add: prod_eq_iff)
  have q2: "qname_attrs ascii_name ?sa [] = (Inr [], ?sa)" by simp
  have nx: "''xmlns'' \<notin> fst ` set ([] :: (string \<times> string) list)" by simp
  note T = must_close_set_enforced
    [where s = ?gc and V = ascii_name and nm = "(None, ''c'')" and attrs = "[]" and q = "''c''"
       and sa = ?sa and sb = ?sa and at = "[]" and g = ?g and p = "Some ''a''"
       and u = "Some ''uri:x''" and gd = ?gd and nmo = "(Some ''uri:x'', ''e'')" and attrso = "[]"
       and go = ?go and nmc = "(Some ''uri:x'', ''e'')" and gc = ?gc]
  from T d na o c have m: "Some ''a'' \<in> ns_prefixes_floating_out ?gc" by blast
  then have ne: "ns_prefixes_floating_out ?gc \<noteq> {}" by blast
  from T ne have "endElementNS ascii_name ?gc (None, ''c'') = (Some UnclosedPrefix, ?gc)" by blast
  moreover from T ne q1 q2 nx
  have "startElementNS ascii_name ?gc (None, ''c'') [] = (Some UnclosedPrefix, ?sa)" by blast
  ultimately show ?thesis using m by simp
qed

subsection \<open>Unnamespaced elements under a prefixless namespace\<close>

text \<open>
  C4, at a failing input. A namespace is declared without prefix and an element of it is
  opened, so that the namespace is active with the absent prefix. \<^verbatim>\<open>_qname\<close> for an
  element without namespace then returns the bare name instead of raising, and
  \<^verbatim>\<open>startElementNS\<close> writes the element inside the prefixless namespace: the test
  \<^verbatim>\<open>None in self._curr_ns_map\<close> looks for \<^verbatim>\<open>None\<close> among the URIs of the active map, not
  among its prefixes.
\<close>

theorem active_prefixless_namespace_not_detected:
  "fst (startPrefixMapping ascii_name (new_generator True) None (Some ''uri:x'') False) = None \<and>
   fst (startElementNS ascii_name
          (snd (startPrefixMapping ascii_name (new_generator True) None (Some ''uri:x'') False))
          (Some ''uri:x'', ''a'') []) = None \<and>
   curr_ns_map
     (snd (startElementNS ascii_name
          (snd (startPrefixMapping ascii_name (new_generator True) None (Some ''uri:x'') False))
          (Some ''uri:x'', ''a'') [])) = [(Some ''uri:x'', None)] \<and>
   fst (qname ascii_name
     (snd (startElementNS ascii_name
          (snd (startPrefixMapping ascii_name (new_generator True) None (Some ''uri:x'') False))
          (Some ''uri:x'', ''a'') []))
     (None, ''b'') False) = Inr ''b'' \<and>
   fst (startElementNS ascii_name
     (snd (startElementNS ascii_name
          (snd (startPrefixMapping ascii_name (new_generator True) None (Some ''uri:x'') False))
          (Some ''uri:x'', ''a'') []))
     (None, ''b'') []) = None \<and>
   out (snd (startElementNS ascii_name
     (snd (startElementNS ascii_name
          (snd (startPrefixMapping ascii_name (new_generator True) None (Some ''uri:x'') False))
          (Some ''uri:x'', ''a'') []))
     (None, ''b'') [])) = ''<a xmlns='' @ quoteattr ''uri:x'' @ ''><b''"
  by code_simp

theorem active_prefixless_namespace_not_detected_witness:
  "fst (qname ascii_name
     (snd (startElementNS ascii_name
          (snd (startPrefixMapping ascii_name (new_generator True) None (Some ''uri:x'') False))
          (Some ''uri:x'', ''a'') []))
     (None, ''b'') False) \<noteq> Inl AmbiguousNamespace"
  using active_prefixless_namespace_not_detected by simp

section \<open>Further properties\<close>

text \<open>
  X1. For a valid local name with absent namespace URI, \<^verbatim>\<open>_qname\<close> returns the bare name
  for an attribute in every state; for an element it raises the \<^verbatim>\<open>ValueError\<close> for an
  ambiguous namespace exactly when \<^verbatim>\<open>None\<close> is a key of the active map or a pending
  prefix, and returns the bare name otherwise. It changes nothing in either case.
\<close>

theorem qname_absent_uri:
  assumes "\<not> truthy (fst nm)" and "CHR '':'' \<notin> set (snd nm)"
    and "xmlValidateNameValue_str V (snd nm)"
  shows "qname V s nm True = (Inr (snd nm), s) \<and>
         qname V s nm False =
           (if None \<in> fst ` set (curr_ns_map s) \<or> None \<in> fst ` set (ns_prefixes_floating_in s)
            then (Inl AmbiguousNamespace, s) else (Inr (snd nm), s))"
  using assms by (simp add: qname_unnamespaced)

theorem qname_absent_uri_witness:
  "qname ascii_name
     (snd (startPrefixMapping ascii_name (new_generator True) None (Some ''uri:x'') False))
     (None, ''b'') True =
     (Inr ''b'', snd (startPrefixMapping ascii_name (new_generator True) None (Some ''uri:x'') False)) \<and>
   qname ascii_name
     (snd (startPrefixMapping ascii_name (new_generator True) None (Some ''uri:x'') False))
     (None, ''b'') False =
     (Inl AmbiguousNamespace,
      snd (startPrefixMapping ascii_name (new_generator True) None (Some ''uri:x'') False))"
proof -
  let ?g = "snd (startPrefixMapping ascii_name (new_generator True) None (Some ''uri:x'') False)"
  have a: "\<not> truthy (fst (None :: string option, ''b''))" by (simp add: truthy_def)
  have b: "CHR '':'' \<notin> set (snd (None :: string option, ''b''))" by simp
  have c: "xmlValidateNameValue_str ascii_name (snd (None :: string option, ''b''))" by code_simp
  have d: "None \<in> fst ` set (ns_prefixes_floating_in ?g)" by code_simp
  from qname_absent_uri [OF a b c, of ?g] d show ?thesis by simp
qed

text \<open>
  X2. In state \<open>STARTED\<close>, the envelope element whose version parses to \<open>(1, 0)\<close>, with
  no \<^verbatim>\<open>to\<close>, a \<^verbatim>\<open>from\<close> that parses as an address and an \<^verbatim>\<open>id\<close>, is accepted: the
  header fields are stored, the state becomes \<open>STREAM_HEADER_PROCESSED\<close> and the depth
  grows by one.
\<close>

theorem stream_header_accepted:
  assumes "state p = STARTED"
    and "map_int (py_int ext)
           (split CHR ''.'' (case attributes (None, ''version'') of None \<Rightarrow> ''0.9'' | Some v \<Rightarrow> v)) =
         Some [1, 0]"
    and "attributes (None, ''to'') = None"
    and "attributes (None, ''from'') = Some f" and "JID_fromstr ext f = Some j"
    and "attributes (None, ''id'') = Some i"
  shows "proc_startElementNS ext p (Some (xmlstream ext), ''stream'') qn attributes =
           (None, p\<lparr>remote_version := Some [1, 0], remote_to := None, remote_from := Some j,
                    remote_id := Some i, state := STREAM_HEADER_PROCESSED, depth := depth p + 1\<rparr>)"
  using assms by (simp add: proc_startElementNS_def)

theorem stream_header_accepted_witness:
  "fst (proc_startElementNS example_externals (snd (proc_startDocument new_processor))
          (Some ''http://etherx.jabber.org/streams'', ''stream'') None
          [(None, ''version'') \<mapsto> ''1.0'', (None, ''from'') \<mapsto> ''a@b'', (None, ''id'') \<mapsto> ''s1'']) = None \<and>
   state (snd (proc_startElementNS example_externals (snd (proc_startDocument new_processor))
          (Some ''http://etherx.jabber.org/streams'', ''stream'') None
          [(None, ''version'') \<mapsto> ''1.0'', (None, ''from'') \<mapsto> ''a@b'', (None, ''id'') \<mapsto> ''s1''])) =
     STREAM_HEADER_PROCESSED \<and>
   depth (snd (proc_startElementNS example_externals (snd (proc_startDocument new_processor))
          (Some ''http://etherx.jabber.org/streams'', ''stream'') None
          [(None, ''version'') \<mapsto> ''1.0'', (None, ''from'') \<mapsto> ''a@b'', (None, ''id'') \<mapsto> ''s1''])) = 1"
proof -
  let ?p = "snd (proc_startDocument (new_processor :: string processor))"
  let ?A = "[(None, ''version'') \<mapsto> ''1.0'', (None, ''from'') \<mapsto> ''a@b'', (None, ''id'') \<mapsto> ''s1'']
              :: name \<rightharpoonup> string"
  have a: "state ?p = STARTED" by (simp add: proc_startDocument_def new_processor_def)
  have dp: "depth ?p = 0" by (simp add: proc_startDocument_def new_processor_def)
  have "map_int ascii_int (split CHR ''.'' ''1.0'') = Some [1, 0]" by code_simp
  moreover have "py_int example_externals = ascii_int" by (simp add: example_externals_def)
  moreover have "(case ?A (None, ''version'') of None \<Rightarrow> ''0.9'' | Some v \<Rightarrow> v) = ''1.0''" by simp
  ultimately have b: "map_int (py_int example_externals)
           (split CHR ''.'' (case ?A (None, ''version'') of None \<Rightarrow> ''0.9'' | Some v \<Rightarrow> v)) =
         Some [1, 0]" by (simp only:)
  have c: "?A (None, ''to'') = None" by simp
  have d: "?A (None, ''from'') = Some ''a@b''" by simp
  have e: "JID_fromstr example_externals ''a@b'' = Some ''a@b''" by (simp add: example_externals_def)
  have f: "?A (None, ''id'') = Some ''s1''" by simp
  have x: "xmlstream example_externals = ''http://etherx.jabber.org/streams''"
    by (simp add: example_externals_def)
  from stream_header_accepted
    [where p = ?p and attributes = ?A and ext = example_externals and f = "''a@b''"
       and j = "''a@b''" and i = "''s1''" and qn = None, OF a b c d e f]
  show ?thesis by (simp add: x dp)
qed

text \<open>
  X3. The same element without \<^verbatim>\<open>from\<close> raises the stream error
  \<^verbatim>\<open>undefined-condition\<close>; the state is unchanged, and the version and the absent
  \<^verbatim>\<open>to\<close> have been stored by then.
\<close>

theorem stream_header_missing_from:
  assumes "state p = STARTED"
    and "map_int (py_int ext)
           (split CHR ''.'' (case attributes (None, ''version'') of None \<Rightarrow> ''0.9'' | Some v \<Rightarrow> v)) =
         Some [1, 0]"
    and "attributes (None, ''to'') = None"
    and "attributes (None, ''from'') = None"
  shows "proc_startElementNS ext p (Some (xmlstream ext), ''stream'') qn attributes =
           (Some (StreamError undefined_condition),
            p\<lparr>remote_version := Some [1, 0], remote_to := None\<rparr>)"
  using assms by (simp add: proc_startElementNS_def)

theorem stream_header_missing_from_witness:
  "fst (proc_startElementNS example_externals (snd (proc_startDocument new_processor))
          (Some ''http://etherx.jabber.org/streams'', ''stream'') None
          [(None, ''version'') \<mapsto> ''1.0'', (None, ''id'') \<mapsto> ''s1'']) =
     Some (StreamError undefined_condition)"
proof -
  let ?p = "snd (proc_startDocument (new_processor :: string processor))"
  let ?A = "[(None, ''version'') \<mapsto> ''1.0'', (None, ''id'') \<mapsto> ''s1''] :: name \<rightharpoonup> string"
  have a: "state ?p = STARTED" by (simp add: proc_startDocument_def new_processor_def)
  have "map_int ascii_int (split CHR ''.'' ''1.0'') = Some [1, 0]" by code_simp
  moreover have "py_int example_externals = ascii_int" by (simp add: example_externals_def)
  moreover have "(case ?A (None, ''version'') of None \<Rightarrow> ''0.9'' | Some v \<Rightarrow> v) = ''1.0''" by simp
  ultimately have b: "map_int (py_int example_externals)
           (split CHR ''.'' (case ?A (None, ''version'') of None \<Rightarrow> ''0.9'' | Some v \<Rightarrow> v)) =
         Some [1, 0]" by (simp only:)
  have c: "?A (None, ''to'') = None" by simp
  have d: "?A (None, ''from'') = None" by simp
  have x: "xmlstream example_externals = ''http://etherx.jabber.org/streams''"
    by (simp add: example_externals_def)
  from stream_header_missing_from
    [where p = ?p and attributes = ?A and ext = example_externals and qn = None, OF a b c d]
  show ?thesis by (simp add: x)
qed

end
